theory Spec2Isabelle
  imports Main "HOL-Library.Sublist" "HOL-Library.Char_ord" "HOL-Library.List_Lexorder"
begin

section \<open>JavaScript strings\<close>

text \<open>
  A JavaScript string is modelled as a \<open>string\<close> (a list of characters). Case mapping
  is the ASCII part of \<open>toLowerCase\<close> / \<open>toUpperCase\<close>: the letters A-Z and a-z are
  mapped, every other character is left alone.
\<close>

definition upper_letters :: string where
  "upper_letters = ''ABCDEFGHIJKLMNOPQRSTUVWXYZ''"

definition lower_letters :: string where
  "lower_letters = ''abcdefghijklmnopqrstuvwxyz''"

definition toLowerChar :: "char \<Rightarrow> char" where
  "toLowerChar c =
     (case map_of (zip upper_letters lower_letters) c of Some d \<Rightarrow> d | None \<Rightarrow> c)"

definition toUpperChar :: "char \<Rightarrow> char" where
  "toUpperChar c =
     (case map_of (zip lower_letters upper_letters) c of Some d \<Rightarrow> d | None \<Rightarrow> c)"

definition toLowerCase :: "string \<Rightarrow> string" where
  "toLowerCase s = map toLowerChar s"

definition toUpperCase :: "string \<Rightarrow> string" where
  "toUpperCase s = map toUpperChar s"

text \<open>
  \<open>s.split(sep)\<close> for a one-character separator: a separator starts a new word,
  any other character goes in front of the first word of the rest. The result is
  never empty (\<open>"".split("-")\<close> is \<open>[""]\<close>), so the first case below never arises.
\<close>

fun split :: "char \<Rightarrow> string \<Rightarrow> string list" where
  "split sep [] = [[]]"
| "split sep (c # cs) =
     (if c = sep then [] # split sep cs
      else (case split sep cs of [] \<Rightarrow> [[c]] | w # ws \<Rightarrow> (c # w) # ws))"

text \<open>\<open>xs.join(sep)\<close>.\<close>

fun join :: "string \<Rightarrow> string list \<Rightarrow> string" where
  "join sep [] = []"
| "join sep [w] = w"
| "join sep (w # v # ws) = w @ sep @ join sep (v # ws)"

text \<open>
  \<open>xs.splice(start, 0, x)\<close>: insertion of one element. A negative start counts from
  the end; the start is clamped to the range \<open>0..length\<close>.
\<close>

definition splice_insert :: "int \<Rightarrow> 'a \<Rightarrow> 'a list \<Rightarrow> 'a list" where
  "splice_insert start x xs =
     (let n = int (length xs);
          k = (if start < 0 then max (n + start) 0 else min start n)
      in take (nat k) xs @ [x] @ drop (nat k) xs)"

text \<open>\<open>xs.splice(i, 1)\<close> for an index in range: removal of the element at \<open>i\<close>.\<close>

definition splice_remove :: "nat \<Rightarrow> 'a list \<Rightarrow> 'a list" where
  "splice_remove i xs = take i xs @ drop (Suc i) xs"

text \<open>
  \<open>s.indexOf(p)\<close>: the position of the first occurrence of \<open>p\<close> in \<open>s\<close>,
  or \<open>-1\<close>.
\<close>

fun index_of :: "string \<Rightarrow> string \<Rightarrow> nat option" where
  "index_of p [] = (if p = [] then Some 0 else None)"
| "index_of p (c # s) =
     (if prefix p (c # s) then Some 0 else map_option Suc (index_of p s))"

definition indexOf :: "string \<Rightarrow> string \<Rightarrow> int" where
  "indexOf s p = (case index_of p s of Some k \<Rightarrow> int k | None \<Rightarrow> - 1)"

text \<open>\<open>s.includes(p)\<close>: whether \<open>p\<close> occurs in \<open>s\<close>.\<close>

fun includes_str :: "string \<Rightarrow> string \<Rightarrow> bool" where
  "includes_str [] p = (p = [])"
| "includes_str (c # s) p = (if prefix p (c # s) then True else includes_str s p)"

text \<open>
  \<open>s.slice(a, b)\<close>: negative positions count from the end, both are clamped, and an
  end at or before the start gives the empty string.
\<close>

definition slice :: "string \<Rightarrow> int \<Rightarrow> int \<Rightarrow> string" where
  "slice s a b =
     (let n = int (length s);
          from = (if a < 0 then max (n + a) 0 else min a n);
          to = (if b < 0 then max (n + b) 0 else min b n)
      in take (nat (to - from)) (drop (nat from) s))"

text \<open>\<open>s.trim()\<close>: white space is removed at both ends.\<close>

definition is_space :: "char \<Rightarrow> bool" where
  "is_space c = (c \<in> set [CHR '' '', CHR 0x09, CHR 0x0A, CHR 0x0B, CHR 0x0C, CHR 0x0D])"

definition trim :: "string \<Rightarrow> string" where
  "trim s = rev (dropWhile is_space (rev (dropWhile is_space s)))"

text \<open>
  The decimal rendering of a non-negative integer, as a template literal or string
  concatenation prints it, and \<open>toFixed(2)\<close> of an integer.
\<close>

definition digit_char :: "nat \<Rightarrow> char" where
  "digit_char d = ''0123456789'' ! d"

fun show_nat :: "nat \<Rightarrow> string" where
  "show_nat n = (if n < 10 then [digit_char n] else show_nat (n div 10) @ [digit_char (n mod 10)])"

declare show_nat.simps [simp del]

definition show_int :: "int \<Rightarrow> string" where
  "show_int i = (if i < 0 then ''-'' @ show_nat (nat (- i)) else show_nat (nat i))"

definition toFixed2 :: "int \<Rightarrow> string" where
  "toFixed2 i = show_int i @ ''.00''"

section \<open>Name formatting (the same two helpers in the server and in the pages)\<close>

text \<open>
  \<open>formatDashes\<close>: the words between spaces are lowercased and joined with dashes.
  The loop starts from the first word and appends a dash and the next word.
\<close>

definition formatDashes :: "string \<Rightarrow> string" where
  "formatDashes name =
     (let words = split (CHR '' '') name
      in foldl (\<lambda>result nextWord. result @ ''-'' @ toLowerCase nextWord)
           (toLowerCase (hd words)) (tl words))"

text \<open>\<open>w.charAt(0).toUpperCase() + w.slice(1)\<close>.\<close>

definition capitalize :: "string \<Rightarrow> string" where
  "capitalize w = toUpperCase (take 1 w) @ drop 1 w"

definition formatTitleCase :: "string \<Rightarrow> string" where
  "formatTitleCase dirName =
     (let words = split (CHR ''-'') dirName
      in foldl (\<lambda>result nextWord. result @ '' '' @ capitalize nextWord)
           (capitalize (hd words)) (tl words))"

section \<open>The catalog store\<close>

text \<open>
  The tables of \<open>setup.sql\<close> that the modelled endpoints read or write. The price
  column is an \<open>INT\<close>. A connection is a number; the state records which connections
  are open and, in order, every connection opened, every statement executed and every
  connection closed. Opening a connection and executing a statement can fail for
  reasons outside the program (the server is down, the connection is lost): the
  list \<open>db_faults\<close> says, for each such operation still to come, whether it fails.
\<close>

record product =
  p_name :: string
  p_price :: int
  p_description :: string
  p_image :: string

record feedback_row =
  f_email :: string
  f_name :: string
  f_message :: string

datatype event = Connect nat | Query nat | End nat

datatype error = DbError | Error string | TypeError | SyntaxError

record db_state =
  db_products :: "product list"
  db_feedback :: "feedback_row list"
  db_faults :: "bool list"
  db_next :: nat
  db_open :: "nat list"
  db_log :: "event list"

definition pop_fault :: "db_state \<Rightarrow> bool \<times> db_state" where
  "pop_fault s = (case db_faults s of [] \<Rightarrow> (False, s) | f # fs \<Rightarrow> (f, s\<lparr>db_faults := fs\<rparr>))"

text \<open>\<open>getDB\<close>: \<open>mysql.createConnection\<close>, which throws when it fails.\<close>

definition getDB :: "db_state \<Rightarrow> (error + nat) \<times> db_state" where
  "getDB s =
     (case pop_fault s of
        (True, s1) \<Rightarrow> (Inl DbError, s1)
      | (False, s1) \<Rightarrow>
          (Inr (db_next s1),
           s1\<lparr>db_next := Suc (db_next s1),
              db_open := db_open s1 @ [db_next s1],
              db_log := db_log s1 @ [Connect (db_next s1)]\<rparr>))"

text \<open>\<open>db.end()\<close>.\<close>

definition db_end :: "nat \<Rightarrow> db_state \<Rightarrow> db_state" where
  "db_end c s = s\<lparr>db_open := removeAll c (db_open s), db_log := db_log s @ [End c]\<rparr>"

text \<open>
  \<open>db.query(statement, parameters)\<close>: the statement is given by what it computes on
  the tables. It throws when the operation fails or when the statement itself is
  in error.
\<close>

definition db_query ::
  "nat \<Rightarrow> (db_state \<Rightarrow> (error + 'r) \<times> db_state) \<Rightarrow> db_state \<Rightarrow> (error + 'r) \<times> db_state" where
  "db_query c statement s =
     (case pop_fault s of
        (True, s1) \<Rightarrow> (Inl DbError, s1)
      | (False, s1) \<Rightarrow> statement (s1\<lparr>db_log := db_log s1 @ [Query c]\<rparr>))"

text \<open>
  String comparison in the store ignores case (the collation of the tables, which the
  documentation of the server functions relies on: "Ignores casing").
\<close>

definition ci_eq :: "string \<Rightarrow> string \<Rightarrow> bool" where
  "ci_eq a b = (toLowerCase a = toLowerCase b)"

text \<open>
  The SQL operator \<open>LIKE\<close>: in the pattern, \<open>%\<close> stands for any sequence of
  characters, \<open>_\<close> for any one character, and a backslash makes the character after
  it stand for itself (a backslash at the very end stands for itself).
\<close>

fun like_match :: "string \<Rightarrow> string \<Rightarrow> bool" where
  "like_match [] [] = True"
| "like_match [] (c # s) = False"
| "like_match (p # ps) [] = (if p = CHR ''%'' then like_match ps [] else False)"
| "like_match (p # ps) (c # s) =
     (if p = CHR ''%'' then (if like_match ps (c # s) then True else like_match (p # ps) s)
      else if p = CHR ''_'' then like_match ps s
      else if p = CHR 0x5C then
        (case ps of [] \<Rightarrow> c = p \<and> s = [] | q # qs \<Rightarrow> c = q \<and> like_match qs s)
      else c = p \<and> like_match ps s)"

definition sql_like :: "string \<Rightarrow> string \<Rightarrow> bool" where
  "sql_like x pattern = like_match (toLowerCase pattern) (toLowerCase x)"

datatype sort_key = By_name | By_price

datatype sort_dir = Asc | Desc

text \<open>
  \<open>ORDER BY\<close>, by name (ignoring case) or by price. SQL leaves open the order of rows
  with equal keys and of a result without \<open>ORDER BY\<close>; here it is the table order
  (ascending), and descending is the reverse of ascending.
\<close>

definition order_rows :: "sort_key option \<Rightarrow> sort_dir option \<Rightarrow> product list \<Rightarrow> product list" where
  "order_rows key dir rows =
     (case key of
        None \<Rightarrow> rows
      | Some k \<Rightarrow>
          (let sorted_rows =
                 (case k of
                    By_name \<Rightarrow> sort_key (\<lambda>r. toLowerCase (p_name r)) rows
                  | By_price \<Rightarrow> sort_key p_price rows)
           in if dir = Some Desc then rev sorted_rows else sorted_rows))"

text \<open>
  \<open>SELECT * FROM products WHERE name LIKE ? AND name LIKE ? ... ORDER BY ...\<close> with one
  pattern for each \<open>LIKE\<close>. A direction without \<open>ORDER BY\<close> is a syntax error.
\<close>

definition select_products_like ::
  "string list \<Rightarrow> sort_key option \<Rightarrow> sort_dir option \<Rightarrow> db_state \<Rightarrow> (error + product list) \<times> db_state" where
  "select_products_like patterns key dir s =
     (if key = None \<and> dir \<noteq> None then (Inl DbError, s)
      else (Inr (order_rows key dir
                   (filter (\<lambda>r. list_all (sql_like (p_name r)) patterns) (db_products s))), s))"

text \<open>\<open>SELECT name FROM products WHERE name=?\<close>\<close>

definition select_name :: "string \<Rightarrow> db_state \<Rightarrow> (error + string list) \<times> db_state" where
  "select_name product s =
     (Inr (map p_name (filter (\<lambda>r. ci_eq (p_name r) product) (db_products s))), s)"

text \<open>\<open>SELECT description FROM products WHERE name=?\<close>\<close>

definition select_description :: "string \<Rightarrow> db_state \<Rightarrow> (error + string list) \<times> db_state" where
  "select_description product s =
     (Inr (map p_description (filter (\<lambda>r. ci_eq (p_name r) product) (db_products s))), s)"

text \<open>
  \<open>INSERT INTO feedback(name, email, message) VALUES (?, ?, ?)\<close>: the email is the
  primary key of the table, so the statement fails when a row has that email.
\<close>

definition insert_feedback ::
  "string \<Rightarrow> string \<Rightarrow> string \<Rightarrow> db_state \<Rightarrow> (error + unit) \<times> db_state" where
  "insert_feedback name email message s =
     (if list_ex (\<lambda>r. ci_eq (f_email r) email) (db_feedback s) then (Inl DbError, s)
      else (Inr (),
            s\<lparr>db_feedback := db_feedback s @
                 [\<lparr>f_email = email, f_name = name, f_message = message\<rparr>]\<rparr>))"

subsection \<open>The catalog of \<open>setup.sql\<close>\<close>

text \<open>
  The rows that \<open>setup.sql\<close> inserts into \<open>products\<close>. The descriptions are
  written over several lines in the script, so they contain line breaks. The two
  prices with a fraction (10.25 and 3.5) are rounded by the \<open>INT\<close> column.
\<close>

definition seed_products :: "product list" where
  "seed_products =
    [
     \<lparr>p_name = ''Cheesecake'', p_price = 7,
      p_description =
        ''One homemade cheesecake, four inches in diameter. Each cheesecake is\<newline>'' @
        '' packaged in a beautiful handcrafted box.'',
      p_image = ''imgs/cheesecake-original.jpg''\<rparr>,
     \<lparr>p_name = ''Macarons (6 pcs)'', p_price = 10,
      p_description =
        ''Six homemade macarons, freshly baked. Each set is packaged in\<newline>'' @
        '' a beautiful handcrafted box.'',
      p_image = ''imgs/macarons-6pcs.jpg''\<rparr>,
     \<lparr>p_name = ''Macarons (12 pcs)'', p_price = 20,
      p_description =
        ''Twelve homemade macarons, freshly baked. Each set is packaged in\<newline>'' @
        '' a beautiful handcrafted box.'',
      p_image = ''imgs/macarons-12pcs.jpg''\<rparr>,
     \<lparr>p_name = ''Mini Palmiers'', p_price = 8,
      p_description =
        ''Ten homemade palmiers made from flaky, buttery puff pastry. Each set\<newline>'' @
        '' is packaged in a beautiful handcrafted box.'',
      p_image = ''imgs/mini-palmiers.jpg''\<rparr>,
     \<lparr>p_name = ''Imperfect Macarons'', p_price = 7,
      p_description =
        ''Six homemade macarons that have visual imperfections such\<newline>'' @
        '' as cracks in the shell. Still taste delicious! Each set is packaged in a beautiful handcrafted\<newline>'' @
        '' box.'',
      p_image = ''imgs/imperfect-macarons.jpg''\<rparr>,
     \<lparr>p_name = ''Wagashi'', p_price = 4,
      p_description =
        ''One homemade wagashi, freshly made. Wagashi are traditional Japanese confections\<newline>'' @
        ''  made with sweet bean paste. At Petite Treats, we shape our wagashi by hand into creative\<newline>'' @
        ''  designs and fill them with flavored mochi. Each wagashi is packaged in a beautiful handcrafted\<newline>'' @
        ''  box.'',
      p_image = ''imgs/wagashi.jpg''\<rparr>,
     \<lparr>p_name = ''Cookies'', p_price = 2,
      p_description =
        ''Three homemade cookies, freshly baked. Each set is packaged in\<newline>'' @
        '' a beautiful handcrafted box.'',
      p_image = ''imgs/cookies.jpg''\<rparr>,
     \<lparr>p_name = ''Brownies'', p_price = 2,
      p_description =
        ''Two homemade brownies, freshly baked. Each set is packaged in\<newline>'' @
        '' a beautiful handcrafted box.'',
      p_image = ''imgs/brownies.jpg''\<rparr>,
     \<lparr>p_name = ''Cake Pops'', p_price = 2,
      p_description =
        ''Three homemade cake pops, freshly baked. Each set is packaged in\<newline>'' @
        '' a beautiful handcrafted box.'',
      p_image = ''imgs/cake-pops.jpg''\<rparr>,
     \<lparr>p_name = ''Truffles'', p_price = 5,
      p_description =
        ''Six homemade truffles made from high quality chocolate. Each set is packaged in\<newline>'' @
        '' a beautiful handcrafted box.'',
      p_image = ''imgs/truffles.jpg''\<rparr>,
     \<lparr>p_name = ''Rice Krispies'', p_price = 2,
      p_description =
        ''Two homemade Rice Krispy treats, freshly baked. Each set is packaged in\<newline>'' @
        '' a beautiful handcrafted box.'',
      p_image = ''imgs/rice-krispies.jpg''\<rparr>,
     \<lparr>p_name = ''Sweet Bread'', p_price = 5,
      p_description =
        ''One homemade sweet bread, freshly baked. Each sweet bread is packaged in\<newline>'' @
        '' a beautiful handcrafted box.'',
      p_image = ''imgs/sweet-bread.jpg''\<rparr>,
     \<lparr>p_name = ''Cupcakes'', p_price = 3,
      p_description =
        ''Four homemade cupcakes, freshly baked. Each set is packaged in\<newline>'' @
        '' a beautiful handcrafted box.'',
      p_image = ''imgs/cupcakes.jpg''\<rparr>,
     \<lparr>p_name = ''Cake'', p_price = 10,
      p_description =
        ''One homemade cake, freshly baked. Each cake is packaged in\<newline>'' @
        '' a beautiful handcrafted box.'',
      p_image = ''imgs/cake.jpg''\<rparr>,
     \<lparr>p_name = ''Pie'', p_price = 10,
      p_description =
        ''One homemade pie, six inches in diameter. Each pie is packaged in\<newline>'' @
        '' a beautiful handcrafted box.'',
      p_image = ''imgs/pie.jpg''\<rparr>
    ]"

definition seed_db :: db_state where
  "seed_db = \<lparr>db_products = seed_products, db_feedback = [], db_faults = [],
               db_next = 0, db_open = [], db_log = []\<rparr>"

section \<open>The HTTP API\<close>

definition SERVER_ERROR :: string where
  "SERVER_ERROR = ''The server encountered an error, please try again later.''"

definition PRODUCT_404_ERR :: string where
  "PRODUCT_404_ERR = ''Product not found''"

definition INVALID_QUERY_ERR :: string where
  "INVALID_QUERY_ERR = ''Invalid query parameter(s)''"

datatype body = Text string | Json_products "product list"

record response =
  r_status :: nat
  r_body :: body

text \<open>
  What a request ends in: a response, or an exception that no handler of the program
  catches.
\<close>

datatype outcome = Responded response | Uncaught error

text \<open>
  A middleware either passes the request on (\<open>next()\<close>) or sets a status and passes an
  error (\<open>res.status(n); next(new Error(msg))\<close>).
\<close>

datatype 'a middleware = Next 'a | Fail nat string

text \<open>\<open>errorHandler\<close> sends the message of the error as plain text, with the status set.\<close>

definition errorHandler :: "nat \<Rightarrow> string \<Rightarrow> response" where
  "errorHandler st msg = \<lparr>r_status = st, r_body = Text msg\<rparr>"

text \<open>
  A parameter of a request body may be absent. \<open>!x\<close> holds of an absent parameter
  and of the empty string.
\<close>

definition falsy :: "string option \<Rightarrow> bool" where
  "falsy v = (case v of None \<Rightarrow> True | Some x \<Rightarrow> x = [])"

definition or_default :: "string \<Rightarrow> string option \<Rightarrow> string" where
  "or_default d v = (if falsy v then d else the v)"

subsection \<open>GET /products\<close>

text \<open>
  A parameter of the query string, as the query parser of Express gives it: a string,
  an array when the key is repeated or written with brackets (\<open>?sort=a&sort=b\<close>),
  or an object when the key has a name in brackets (\<open>?sort[a]=b\<close>). A parameter may
  be absent. \<open>!x\<close> holds of an absent parameter and of the empty string; arrays and
  objects are truthy.
\<close>

datatype param = Str string | Arr "param list" | Obj "(string \<times> param) list"

record query =
  q_contains :: "param option"
  q_sort :: "param option"
  q_direction :: "param option"

record products_params =
  pq_contains :: string
  pq_sort :: string
  pq_direction :: string

definition falsy_param :: "param option \<Rightarrow> bool" where
  "falsy_param v = (case v of None \<Rightarrow> True | Some (Str x) \<Rightarrow> x = [] | Some other \<Rightarrow> False)"

definition param_or :: "string \<Rightarrow> param option \<Rightarrow> param" where
  "param_or d v = (if falsy_param v then Str d else the v)"

text \<open>
  \<open>validateProductsQuery\<close>. After the defaults, \<open>formatDashes\<close> calls \<open>split\<close> on
  the contains parameter, and \<open>toLowerCase\<close> is called on the sort and on the
  direction, in this order. On an array or an object these are not functions: the
  call throws a TypeError, whose message is the left result here, and the statements
  after it are not reached.
\<close>

definition validateProductsQuery :: "query \<Rightarrow> string + products_params middleware" where
  "validateProductsQuery q =
     (case param_or [] (q_contains q) of
        Str c \<Rightarrow>
          (case param_or ''name'' (q_sort q) of
             Str srt \<Rightarrow>
               (case param_or ''asc'' (q_direction q) of
                  Str d \<Rightarrow>
                    (let contains = formatDashes c;
                         sortBy = toLowerCase srt;
                         direction = toLowerCase d
                     in if (sortBy \<noteq> ''name'' \<and> sortBy \<noteq> ''price'') \<or>
                           (direction \<noteq> ''asc'' \<and> direction \<noteq> ''desc'')
                        then Inr (Fail 400 INVALID_QUERY_ERR)
                        else Inr (Next \<lparr>pq_contains = contains, pq_sort = sortBy,
                                         pq_direction = direction\<rparr>))
                | other \<Rightarrow> Inl ''req.query.direction.toLowerCase is not a function'')
           | other \<Rightarrow> Inl ''req.query.sort.toLowerCase is not a function'')
      | other \<Rightarrow> Inl ''name.split is not a function'')"

text \<open>
  \<open>getProductsListFiltered\<close>: the loop wraps every word but the last in \<open>%\<close> and adds
  one \<open>AND name LIKE ?\<close> for it; the statement after the loop wraps the last word. The
  statement so has one \<open>LIKE ?\<close> for each word.
\<close>

definition getProductsListFiltered ::
  "nat \<Rightarrow> string \<Rightarrow> string \<Rightarrow> string \<Rightarrow> db_state \<Rightarrow> (error + product list) \<times> db_state" where
  "getProductsListFiltered db contains sortBy direction s =
     (let words = split (CHR ''-'') contains;
          words = map (\<lambda>w. ''%'' @ w @ ''%'') (butlast words) @
                  [''%'' @ last words @ ''%''];
          key = (if sortBy = ''name'' then Some By_name
                 else if sortBy = ''price'' then Some By_price else None);
          dir = (if direction = ''asc'' then Some Asc
                 else if direction = ''desc'' then Some Desc else None)
      in db_query db (select_products_like words key dir) s)"

definition products_handler :: "products_params \<Rightarrow> db_state \<Rightarrow> outcome \<times> db_state" where
  "products_handler p s =
     (case getDB s of
        (Inl err, s1) \<Rightarrow> (Responded (errorHandler 500 SERVER_ERROR), s1)
      | (Inr db, s1) \<Rightarrow>
          (case getProductsListFiltered db (pq_contains p) (pq_sort p) (pq_direction p) s1 of
             (Inl err, s2) \<Rightarrow> (Responded (errorHandler 500 SERVER_ERROR), db_end db s2)
           | (Inr rows, s2) \<Rightarrow>
               (Responded \<lparr>r_status = 200, r_body = Json_products rows\<rparr>, db_end db s2)))"

text \<open>
  The endpoint. An exception thrown in the middleware goes to \<open>errorHandler\<close>, which
  sends its message; no status was set, so the status is the default 200.
\<close>

definition get_products :: "query \<Rightarrow> db_state \<Rightarrow> outcome \<times> db_state" where
  "get_products q s =
     (case validateProductsQuery q of
        Inl msg \<Rightarrow> (Responded (errorHandler 200 msg), s)
      | Inr (Fail st msg) \<Rightarrow> (Responded (errorHandler st msg), s)
      | Inr (Next p) \<Rightarrow> products_handler p s)"

text \<open>The contains parameter in words: lowercased, every space replaced by a dash.\<close>

definition lowercase_dash_joined :: "string \<Rightarrow> string" where
  "lowercase_dash_joined c = map (\<lambda>x. if x = CHR '' '' then CHR ''-'' else toLowerChar x) c"

text \<open>
  A parameter that is absent or a string, and its text after the default. The test
  on sort and direction in words: after the defaults and lowercasing, the sort is
  \<open>name\<close> or \<open>price\<close> and the direction is \<open>asc\<close> or \<open>desc\<close>.
\<close>

definition string_valued :: "param option \<Rightarrow> bool" where
  "string_valued v = (case v of None \<Rightarrow> True | Some (Str x) \<Rightarrow> True | Some other \<Rightarrow> False)"

definition text_or :: "string \<Rightarrow> param option \<Rightarrow> string" where
  "text_or d v = (case param_or d v of Str x \<Rightarrow> x | other \<Rightarrow> [])"

definition sort_direction_ok :: "query \<Rightarrow> bool" where
  "sort_direction_ok q =
     (toLowerCase (text_or ''name'' (q_sort q)) \<in> {''name'', ''price''} \<and>
      toLowerCase (text_or ''asc'' (q_direction q)) \<in> {''asc'', ''desc''})"

subsection \<open>POST /custom-description\<close>

record desc_body =
  b_product :: "string option"
  b_flavor :: "string option"
  b_box :: "string option"

record desc_params =
  d_product :: string
  d_flavor :: string
  d_box :: string

text \<open>
  \<open>validateDescParams\<close> is an async function with no \<open>try\<close>: an exception of
  \<open>getDB\<close> or of \<open>db.query\<close> leaves it at once, and \<open>db.end()\<close> is the
  statement after the query.
\<close>

definition validateDescParams ::
  "desc_body \<Rightarrow> db_state \<Rightarrow> (error + desc_params middleware) \<times> db_state" where
  "validateDescParams b s =
     (if falsy (b_product b) \<or> falsy (b_flavor b) \<or> falsy (b_box b)
      then (Inr (Fail 400 ''Missing one or more of the required parameters: product, flavor, box.''), s)
      else
        (let product = formatTitleCase (the (b_product b)) in
         case getDB s of
           (Inl err, s1) \<Rightarrow> (Inl err, s1)
         | (Inr db, s1) \<Rightarrow>
             (case db_query db (select_name product) s1 of
                (Inl err, s2) \<Rightarrow> (Inl err, s2)
              | (Inr rows, s2) \<Rightarrow>
                  (let s3 = db_end db s2 in
                   if length rows = 0 then (Inr (Fail 400 PRODUCT_404_ERR), s3)
                   else (Inr (Next \<lparr>d_product = product, d_flavor = the (b_flavor b),
                                      d_box = the (b_box b)\<rparr>), s3)))))"

definition getDescription ::
  "nat \<Rightarrow> string \<Rightarrow> db_state \<Rightarrow> (error + string list) \<times> db_state" where
  "getDescription db product s =
     (case db_query db (select_description product) s of
        (Inl err, s1) \<Rightarrow> (Inl err, s1)
      | (Inr rows, s1) \<Rightarrow>
          (if length rows = 0 then (Inl (Error PRODUCT_404_ERR), s1) else (Inr rows, s1)))"

text \<open>
  The words of the description, with the flavor spliced in at index 2 and then the box
  spliced in at index -1.
\<close>

definition customize :: "string \<Rightarrow> string \<Rightarrow> string \<Rightarrow> string" where
  "customize description flavor box =
     (let desc = split (CHR '' '') description;
          desc = splice_insert 2 flavor desc;
          desc = splice_insert (- 1) box desc
      in join '' '' desc)"

definition custom_description_handler :: "desc_params \<Rightarrow> db_state \<Rightarrow> outcome \<times> db_state" where
  "custom_description_handler p s =
     (case getDB s of
        (Inl err, s1) \<Rightarrow> (Responded (errorHandler 500 SERVER_ERROR), s1)
      | (Inr db, s1) \<Rightarrow>
          (case getDescription db (d_product p) s1 of
             (Inl err, s2) \<Rightarrow> (Responded (errorHandler 500 SERVER_ERROR), db_end db s2)
           | (Inr rows, s2) \<Rightarrow>
               (Responded \<lparr>r_status = 200,
                            r_body = Text (customize (hd rows) (d_flavor p) (d_box p))\<rparr>,
                db_end db s2)))"

definition post_custom_description :: "desc_body \<Rightarrow> db_state \<Rightarrow> outcome \<times> db_state" where
  "post_custom_description b s =
     (case validateDescParams b s of
        (Inl err, s1) \<Rightarrow> (Uncaught err, s1)
      | (Inr (Fail st msg), s1) \<Rightarrow> (Responded (errorHandler st msg), s1)
      | (Inr (Next p), s1) \<Rightarrow> custom_description_handler p s1)"

subsection \<open>POST /contact-us\<close>

record contact_body =
  c_name :: "string option"
  c_email :: "string option"
  c_message :: "string option"

record contact_params =
  m_name :: string
  m_email :: string
  m_message :: string

definition validateForm :: "contact_body \<Rightarrow> contact_params middleware" where
  "validateForm b =
     (if falsy (c_name b) \<or> falsy (c_email b) \<or> falsy (c_message b)
      then Fail 400 ''Missing one or more of the required parameters: name, email and message.''
      else if \<not> includes_str (the (c_email b)) ''@''
      then Fail 400 (''Invalid email. Must contain '' @ [CHR 0x27] @ ''@'' @ [CHR 0x27] @ ''.'')
      else Next \<lparr>m_name = the (c_name b), m_email = the (c_email b),
                  m_message = the (c_message b)\<rparr>)"

definition recordMessage ::
  "nat \<Rightarrow> string \<Rightarrow> string \<Rightarrow> string \<Rightarrow> db_state \<Rightarrow> (error + unit) \<times> db_state" where
  "recordMessage db name email message s = db_query db (insert_feedback name email message) s"

definition contact_us_handler :: "contact_params \<Rightarrow> db_state \<Rightarrow> outcome \<times> db_state" where
  "contact_us_handler p s =
     (case getDB s of
        (Inl err, s1) \<Rightarrow> (Responded (errorHandler 500 SERVER_ERROR), s1)
      | (Inr db, s1) \<Rightarrow>
          (case recordMessage db (m_name p) (m_email p) (m_message p) s1 of
             (Inl err, s2) \<Rightarrow> (Responded (errorHandler 500 SERVER_ERROR), db_end db s2)
           | (Inr u, s2) \<Rightarrow>
               (Responded \<lparr>r_status = 200,
                            r_body = Text ''Message successfully submitted! Thank you!''\<rparr>,
                db_end db s2)))"

definition post_contact_us :: "contact_body \<Rightarrow> db_state \<Rightarrow> outcome \<times> db_state" where
  "post_contact_us b s =
     (case validateForm b of
        Fail st msg \<Rightarrow> (Responded (errorHandler st msg), s)
      | Next p \<Rightarrow> contact_us_handler p s)"

section \<open>The featured section of the home page\<close>

text \<open>
  What \<open>fetch\<close> gives for a URL: nothing when the request itself fails (the promise
  is rejected), or a response with its \<open>ok\<close> flag, its status, its body as text and
  its body as the JSON of a product (nothing when the body does not parse).
\<close>

record http_response =
  h_ok :: bool
  h_status :: nat
  h_text :: string
  h_json :: "product option"

type_synonym world = "string \<Rightarrow> http_response option"

record card =
  cd_heading :: string
  cd_price :: string
  cd_img_src :: string
  cd_img_alt :: string
  cd_description :: string

text \<open>
  The page: the text of \<open>#results\<close>, the cards of \<open>#featured\<close> in document order,
  and the URLs fetched so far, in the order the requests were issued.
\<close>

record home_page =
  hp_results :: string
  hp_featured :: "card list"
  hp_requests :: "string list"

definition BASE_URL :: string where
  "BASE_URL = ''/''"

definition REQUEST_ERROR :: string where
  "REQUEST_ERROR = ''There was an error loading the data. Please try again later.''"

definition createCard :: "product \<Rightarrow> card" where
  "createCard product =
     \<lparr>cd_heading = p_name product,
      cd_price = ''$'' @ toFixed2 (p_price product),
      cd_img_src = p_image product,
      cd_img_alt = p_name product,
      cd_description = p_description product\<rparr>"

text \<open>\<open>checkStatus\<close> of the home page: it throws unless the response is \<open>ok\<close>.\<close>

definition checkStatus :: "http_response \<Rightarrow> error + http_response" where
  "checkStatus response =
     (if \<not> h_ok response
      then Inl (Error (if h_status response = 400 then h_text response
                       else ''The server encountered an error. Please try again later.''))
      else Inr response)"

definition handleRequestError :: "home_page \<Rightarrow> home_page" where
  "handleRequestError pg = pg\<lparr>hp_results := REQUEST_ERROR\<rparr>"

definition product_url :: "string \<Rightarrow> string" where
  "product_url name = BASE_URL @ ''products/'' @ formatDashes name"

text \<open>
  The loop of \<open>initializeFeatured\<close> from index \<open>i\<close> on: each round awaits the
  fetch of one product, checks it, reads its JSON and appends its card. An exception
  ends the loop; the page is as the rounds before left it.
\<close>

fun featured_loop :: "world \<Rightarrow> string list \<Rightarrow> home_page \<Rightarrow> (error + unit) \<times> home_page" where
  "featured_loop w [] pg = (Inr (), pg)"
| "featured_loop w (name # names) pg =
     (let pg1 = pg\<lparr>hp_requests := hp_requests pg @ [product_url name]\<rparr> in
      case w (product_url name) of
        None \<Rightarrow> (Inl TypeError, pg1)
      | Some product \<Rightarrow>
          (case checkStatus product of
             Inl err \<Rightarrow> (Inl err, pg1)
           | Inr checked \<Rightarrow>
               (case h_json product of
                  None \<Rightarrow> (Inl SyntaxError, pg1)
                | Some productJson \<Rightarrow>
                    featured_loop w names
                      (pg1\<lparr>hp_featured := hp_featured pg1 @ [createCard productJson]\<rparr>))))"

definition initializeFeatured_try :: "world \<Rightarrow> home_page \<Rightarrow> (error + unit) \<times> home_page" where
  "initializeFeatured_try w pg =
     (let pg1 = pg\<lparr>hp_requests := hp_requests pg @ [BASE_URL @ ''featured'']\<rparr> in
      case w (BASE_URL @ ''featured'') of
        None \<Rightarrow> (Inl TypeError, pg1)
      | Some featured \<Rightarrow>
          (case checkStatus featured of
             Inl err \<Rightarrow> (Inl err, pg1)
           | Inr checked \<Rightarrow>
               (let featuredText = split (CHR 0x0A) (trim (h_text featured)) in
                case featured_loop w featuredText pg1 of
                  (Inl err, pg2) \<Rightarrow> (Inl err, pg2)
                | (Inr u, pg2) \<Rightarrow> (Inr (), pg2\<lparr>hp_results := []\<rparr>))))"

definition initializeFeatured :: "world \<Rightarrow> home_page \<Rightarrow> home_page" where
  "initializeFeatured w pg =
     (case initializeFeatured_try w (pg\<lparr>hp_results := ''Response Loading...''\<rparr>) of
        (Inl err, pg1) \<Rightarrow> handleRequestError pg1
      | (Inr u, pg1) \<Rightarrow> pg1)"

section \<open>The cart\<close>

text \<open>
  The cart in session storage: a list of line items, each with a name, a unit price
  and one customization for each unit. Prices are whole numbers, as the \<open>INT\<close>
  column they come from.
\<close>

record customization =
  cz_flavor :: string
  cz_box :: string

record line_item =
  li_name :: string
  li_price :: int
  li_customizations :: "customization list"

subsection \<open>Add (the products page)\<close>

text \<open>
  What \<open>addCart\<close> and \<open>updateCart\<close> read from the page of the single item: the
  quantity as \<open>parseInt\<close> gives it (nothing for \<open>NaN\<close>), the text of
  \<open>#product-name\<close>, the values of the two selects and the price that
  \<open>parseFloat\<close> reads after the dollar sign of \<open>#single-view-price\<close>.
\<close>

record item_view =
  iv_qty :: "int option"
  iv_name :: string
  iv_flavor :: string
  iv_box :: string
  iv_price :: int

text \<open>
  The first loop of \<open>updateCart\<close> from index \<open>i\<close> on: a line item with the name is
  taken out of the array with \<open>splice\<close> and kept in \<open>item\<close>, and the index moves on
  by one in every round.
\<close>

function updateCart_loop ::
  "string \<Rightarrow> nat \<Rightarrow> line_item list \<Rightarrow> line_item option \<Rightarrow> line_item list \<times> line_item option" where
  "updateCart_loop name i cart item =
     (if i < length cart
      then (if li_name (cart ! i) = name
            then updateCart_loop name (Suc i) (splice_remove i cart) (Some (cart ! i))
            else updateCart_loop name (Suc i) cart item)
      else (cart, item))"
  by pat_completeness auto
termination
  by (relation "measure (\<lambda>(name, i, cart, item). length cart - i)")
     (auto simp: splice_remove_def)

declare updateCart_loop.simps [simp del]

text \<open>\<open>for (let j = 0; j < qty; j++)\<close> runs \<open>qty\<close> times, and not at all for \<open>NaN\<close>.\<close>

definition rounds :: "int option \<Rightarrow> nat" where
  "rounds qty = (case qty of None \<Rightarrow> 0 | Some q \<Rightarrow> nat q)"

definition updateCart :: "item_view \<Rightarrow> line_item list \<Rightarrow> line_item list" where
  "updateCart v cart =
     (let customizations = \<lparr>cz_flavor = formatTitleCase (iv_flavor v),
                             cz_box = formatTitleCase (iv_box v)\<rparr> in
      case updateCart_loop (iv_name v) 0 cart None of
        (cart1, found) \<Rightarrow>
          (let item = (case found of
                         None \<Rightarrow> \<lparr>li_name = iv_name v, li_price = iv_price v,
                                    li_customizations = []\<rparr>
                       | Some it \<Rightarrow> it);
               item = item\<lparr>li_customizations :=
                        li_customizations item @ replicate (rounds (iv_qty v)) customizations\<rparr>
           in cart1 @ [item]))"

text \<open>
  \<open>addCart\<close>: the quantity input has \<open>min\<close> 1 and \<open>max\<close> 10
  (\<open>createQtyInput\<close>); a quantity outside, zero or \<open>NaN\<close> ends the function before
  anything is stored. Session storage holds nothing under the key at first.
\<close>

definition qty_min :: int where
  "qty_min = 1"

definition qty_max :: int where
  "qty_max = 10"

definition qty_rejected :: "int option \<Rightarrow> bool" where
  "qty_rejected qty = (case qty of None \<Rightarrow> True | Some q \<Rightarrow> q < qty_min \<or> q > qty_max \<or> q = 0)"

definition addCart :: "item_view \<Rightarrow> line_item list option \<Rightarrow> line_item list option" where
  "addCart v storage =
     (if qty_rejected (iv_qty v) then storage
      else Some (updateCart v (case storage of None \<Rightarrow> [] | Some cart \<Rightarrow> cart)))"

subsection \<open>Render and Remove (the cart page)\<close>

text \<open>
  A rendered line item: the text node of the \<open>li\<close>, the amount that its \<open>span\<close>
  shows with two decimals, and the texts of the items of its inner list. The page:
  the numbers that \<open>#cart-count\<close> and \<open>#total-price\<close> show, the children of
  \<open>#cart\<close> and the cart in session storage.
\<close>

record li_node =
  n_text :: string
  n_span :: int
  n_customs :: "string list"

record cart_page =
  cp_count :: int
  cp_total :: int
  cp_items :: "li_node list"
  cp_storage :: "line_item list option"

text \<open>
  \<open>createItem\<close>: one round of the loop for each customization adds its text, one to
  the count and the unit price to the price of the item.
\<close>

definition createItem :: "line_item \<Rightarrow> cart_page \<Rightarrow> li_node \<times> cart_page" where
  "createItem item pg =
     (let items = li_customizations item;
          (customs, count, totalItemPrice) =
             foldl (\<lambda>(customs, count, total) newItem.
                      (customs @ [''Flavor: '' @ cz_flavor newItem @ [CHR 0x0A] @
                                  ''Box Decoration: '' @ cz_box newItem],
                       count + 1, total + li_price item))
                   ([], cp_count pg, 0) items
      in (\<lparr>n_text = show_nat (length items) @ '' '' @ li_name item @ '' - $'',
           n_span = totalItemPrice, n_customs = customs\<rparr>,
          pg\<lparr>cp_count := count, cp_total := cp_total pg + totalItemPrice\<rparr>))"

definition initializeCart :: "cart_page \<Rightarrow> cart_page" where
  "initializeCart pg =
     (case cp_storage pg of
        None \<Rightarrow> pg
      | Some cart \<Rightarrow>
          foldl (\<lambda>pg1 item. case createItem item pg1 of
                               (node, pg2) \<Rightarrow> pg2\<lparr>cp_items := cp_items pg2 @ [node]\<rparr>)
                pg cart)"

text \<open>
  \<open>textContent\<close> of a rendered line item: its text node, the span, the button and
  the inner list.
\<close>

definition textContent :: "li_node \<Rightarrow> string" where
  "textContent node = n_text node @ toFixed2 (n_span node) @ ''X'' @ concat (n_customs node)"

text \<open>The name as \<open>removeItem\<close> reads it back from the text.\<close>

definition parse_name :: "string \<Rightarrow> string" where
  "parse_name name = slice name (indexOf name '' '' + 1) (indexOf name '' - '')"

text \<open>The loop of \<open>removeItem\<close> from index \<open>i\<close> on.\<close>

function removeItem_loop :: "string \<Rightarrow> nat \<Rightarrow> line_item list \<Rightarrow> line_item list" where
  "removeItem_loop name i cart =
     (if i < length cart
      then (if li_name (cart ! i) = name
            then removeItem_loop name (Suc i) (splice_remove i cart)
            else removeItem_loop name (Suc i) cart)
      else cart)"
  by pat_completeness auto
termination
  by (relation "measure (\<lambda>(name, i, cart). length cart - i)")
     (auto simp: splice_remove_def)

declare removeItem_loop.simps [simp del]

text \<open>\<open>removeItem\<close> for a click on the button of the \<open>k\<close>-th rendered line item.\<close>

definition removeItem :: "nat \<Rightarrow> cart_page \<Rightarrow> cart_page" where
  "removeItem k pg =
     (case cp_storage pg of
        None \<Rightarrow> pg
      | Some cart \<Rightarrow>
          (let node = cp_items pg ! k;
               name = parse_name (textContent node);
               cart1 = removeItem_loop name 0 cart
           in pg\<lparr>cp_storage := Some cart1,
                 cp_count := cp_count pg - int (length (n_customs node)),
                 cp_total := cp_total pg - n_span node,
                 cp_items := splice_remove k (cp_items pg)\<rparr>))"

section \<open>Auxiliary notions for the properties\<close>

text \<open>
  A store on which no operation to come fails, holding a given products table.
\<close>

definition healthy :: "db_state \<Rightarrow> product list \<Rightarrow> bool" where
  "healthy s tbl = (True \<notin> set (db_faults s) \<and> db_products s = tbl)"

text \<open>A store whose feedback table already has a submission.\<close>

definition feedback_db :: db_state where
  "feedback_db = seed_db\<lparr>db_feedback :=
     [\<lparr>f_email = ''ann@example.com'', f_name = ''Ann'', f_message = ''Hello''\<rparr>]\<rparr>"

text \<open>A word without the characters that \<open>LIKE\<close> reads as wildcards or escapes.\<close>

definition wildcard_free :: "string \<Rightarrow> bool" where
  "wildcard_free w = (CHR ''%'' \<notin> set w \<and> CHR ''_'' \<notin> set w \<and> CHR 0x5C \<notin> set w)"

text \<open>The request \<open>GET /products?contains=c_ke\<close>.\<close>

definition wildcard_query :: query where
  "wildcard_query = \<lparr>q_contains = Some (Str ''c_ke''), q_sort = None, q_direction = None\<rparr>"

text \<open>
  The requests \<open>GET /products?sort=name&sort=price\<close> and
  \<open>GET /products?contains=Mini&contains=Palmiers\<close>, and the request
  \<open>GET /products?contains=Mini Palmiers\<close>.
\<close>

definition repeated_sort_query :: query where
  "repeated_sort_query =
     \<lparr>q_contains = None, q_sort = Some (Arr [Str ''name'', Str ''price'']), q_direction = None\<rparr>"

definition repeated_contains_query :: query where
  "repeated_contains_query =
     \<lparr>q_contains = Some (Arr [Str ''Mini'', Str ''Palmiers'']), q_sort = None,
      q_direction = None\<rparr>"

definition mini_palmiers_query :: query where
  "mini_palmiers_query =
     \<lparr>q_contains = Some (Str ''Mini Palmiers''), q_sort = None, q_direction = None\<rparr>"

text \<open>The cart, for storage that may hold nothing, and a sequence of Add operations.\<close>

definition cart_of :: "line_item list option \<Rightarrow> line_item list" where
  "cart_of storage = (case storage of None \<Rightarrow> [] | Some cart \<Rightarrow> cart)"

definition add_all :: "item_view list \<Rightarrow> line_item list option \<Rightarrow> line_item list option" where
  "add_all views storage = foldl (\<lambda>st v. addCart v st) storage views"

text \<open>The total quantity that the accepted Add operations of a sequence add for a name.\<close>

definition total_added :: "string \<Rightarrow> item_view list \<Rightarrow> int" where
  "total_added name views =
     sum_list (map (\<lambda>v. the (iv_qty v))
                (filter (\<lambda>v. \<not> qty_rejected (iv_qty v) \<and> iv_name v = name) views))"

text \<open>
  The customization selected on the page, and the line item that Add appends for a
  cart with at most one line item for each name: the line item of that name, or a new
  one, with the selected customization added once for each unit.
\<close>

definition selected :: "item_view \<Rightarrow> customization" where
  "selected v = \<lparr>cz_flavor = formatTitleCase (iv_flavor v), cz_box = formatTitleCase (iv_box v)\<rparr>"

definition merged :: "item_view \<Rightarrow> line_item list \<Rightarrow> line_item" where
  "merged v cart =
     (let item = (case find (\<lambda>x. li_name x = iv_name v) cart of
                    None \<Rightarrow> \<lparr>li_name = iv_name v, li_price = iv_price v, li_customizations = []\<rparr>
                  | Some it \<Rightarrow> it)
      in item\<lparr>li_customizations :=
                li_customizations item @ replicate (rounds (iv_qty v)) (selected v)\<rparr>)"

definition cart_inv :: "line_item list \<Rightarrow> item_view list \<Rightarrow> bool" where
  "cart_inv cart views =
     (distinct (map li_name cart) \<and>
      (\<forall>it \<in> set cart. int (length (li_customizations it)) = total_added (li_name it) views) \<and>
      li_name ` set cart = iv_name ` {v \<in> set views. \<not> qty_rejected (iv_qty v)})"

text \<open>The rendered line item that \<open>createItem\<close> builds, in closed form.\<close>

definition custom_text :: "customization \<Rightarrow> string" where
  "custom_text c = ''Flavor: '' @ cz_flavor c @ [CHR 0x0A] @ ''Box Decoration: '' @ cz_box c"

definition rendered :: "line_item \<Rightarrow> li_node" where
  "rendered item =
     \<lparr>n_text = show_nat (length (li_customizations item)) @ '' '' @ li_name item @ '' - $'',
      n_span = li_price item * int (length (li_customizations item)),
      n_customs = map custom_text (li_customizations item)\<rparr>"

text \<open>Examples: two Add operations for Cake, two carts and an empty cart page.\<close>

definition cake_chocolate :: item_view where
  "cake_chocolate = \<lparr>iv_qty = Some 1, iv_name = ''Cake'', iv_flavor = ''chocolate'',
                      iv_box = ''plain'', iv_price = 10\<rparr>"

definition cake_red_velvet :: item_view where
  "cake_red_velvet = \<lparr>iv_qty = Some 1, iv_name = ''Cake'', iv_flavor = ''red-velvet'',
                       iv_box = ''bow'', iv_price = 10\<rparr>"

definition cake_and_brownies :: "line_item list" where
  "cake_and_brownies =
     [\<lparr>li_name = ''Cake'', li_price = 10,
       li_customizations = [\<lparr>cz_flavor = ''Chocolate'', cz_box = ''Plain''\<rparr>,
                            \<lparr>cz_flavor = ''Red Velvet'', cz_box = ''Bow''\<rparr>]\<rparr>,
      \<lparr>li_name = ''Brownies'', li_price = 2,
       li_customizations = [\<lparr>cz_flavor = ''Caramel'', cz_box = ''Flower''\<rparr>]\<rparr>]"

definition dash_cart :: "line_item list" where
  "dash_cart =
     [\<lparr>li_name = ''Cake -'', li_price = 10,
       li_customizations = [\<lparr>cz_flavor = ''Chocolate'', cz_box = ''Plain''\<rparr>]\<rparr>]"

definition cart_page_of :: "line_item list \<Rightarrow> cart_page" where
  "cart_page_of cart =
     initializeCart \<lparr>cp_count = 0, cp_total = 0, cp_items = [], cp_storage = Some cart\<rparr>"

text \<open>
  For the featured section: whether the fetch of a product succeeds with a response that
  is \<open>ok\<close> and has a JSON body, the card of such a product, and two examples of what
  the server answers (in the second, the second product fails with status 500).
\<close>

definition served :: "world \<Rightarrow> string \<Rightarrow> bool" where
  "served w name =
     (case w (product_url name) of None \<Rightarrow> False | Some r \<Rightarrow> h_ok r \<and> h_json r \<noteq> None)"

definition card_of :: "world \<Rightarrow> string \<Rightarrow> card" where
  "card_of w name = createCard (the (h_json (the (w (product_url name)))))"

definition featured_response :: http_response where
  "featured_response =
     \<lparr>h_ok = True, h_status = 200, h_text = ''Cheesecake\<newline>Mini Palmiers\<newline>'', h_json = None\<rparr>"

definition product_response :: "product \<Rightarrow> http_response" where
  "product_response p = \<lparr>h_ok = True, h_status = 200, h_text = [], h_json = Some p\<rparr>"

definition error_response :: http_response where
  "error_response = \<lparr>h_ok = False, h_status = 500, h_text = SERVER_ERROR, h_json = None\<rparr>"

definition good_world :: world where
  "good_world url =
     (if url = ''/featured'' then Some featured_response
      else if url = ''/products/cheesecake'' then Some (product_response (seed_products ! 0))
      else if url = ''/products/mini-palmiers'' then Some (product_response (seed_products ! 3))
      else None)"

definition failing_world :: world where
  "failing_world url =
     (if url = ''/featured'' then Some featured_response
      else if url = ''/products/cheesecake'' then Some (product_response (seed_products ! 0))
      else if url = ''/products/mini-palmiers'' then Some error_response
      else None)"

definition blank_home :: home_page where
  "blank_home = \<lparr>hp_results = [], hp_featured = [], hp_requests = []\<rparr>"

section \<open>Properties\<close>

subsection \<open>Strings and name formatting\<close>

lemmas char_defs = toLowerCase_def toLowerChar_def toUpperCase_def toUpperChar_def
  upper_letters_def lower_letters_def

lemma split_not_Nil: "split sep s \<noteq> []"
  by (induction s) (auto split: list.splits)

lemma foldl_append_words:
  "foldl (\<lambda>result nextWord. result @ sep @ f nextWord) acc ws = acc @ concat (map (\<lambda>w. sep @ f w) ws)"
  by (induction ws arbitrary: acc) auto

lemma split_words_map:
  "map f (hd (split sep s)) @ concat (map (\<lambda>w. d # map f w) (tl (split sep s)))
     = map (\<lambda>x. if x = sep then d else f x) s"
proof (induction s)
  case Nil
  show ?case by simp
next
  case (Cons c cs)
  obtain h t where ht: "split sep cs = h # t"
    using split_not_Nil [of sep cs] by (cases "split sep cs") auto
  from Cons ht show ?case by auto
qed

lemma formatDashes_eq: "formatDashes s = lowercase_dash_joined s"
proof -
  have "formatDashes s = map toLowerChar (hd (split (CHR '' '') s)) @
      concat (map (\<lambda>w. ''-'' @ map toLowerChar w) (tl (split (CHR '' '') s)))"
    unfolding formatDashes_def Let_def toLowerCase_def by (rule foldl_append_words)
  also have "\<dots> = lowercase_dash_joined s"
    using split_words_map [of toLowerChar "CHR '' ''" s "CHR ''-''"]
    by (simp add: lowercase_dash_joined_def)
  finally show ?thesis .
qed

lemma toLowerChar_cases: "toLowerChar c = c \<or> toLowerChar c \<in> set lower_letters"
proof (cases "map_of (zip upper_letters lower_letters) c")
  case None
  then show ?thesis by (simp add: toLowerChar_def)
next
  case (Some d)
  then have "(c, d) \<in> set (zip upper_letters lower_letters)" by (rule map_of_SomeD)
  then have "d \<in> set lower_letters" by (rule set_zip_rightD)
  with Some show ?thesis by (simp add: toLowerChar_def)
qed

lemma letters_disjoint: "set upper_letters \<inter> set lower_letters = {}"
  by (simp add: upper_letters_def lower_letters_def)

lemma toLowerChar_lower: "d \<in> set lower_letters \<Longrightarrow> toLowerChar d = d"
proof -
  assume "d \<in> set lower_letters"
  with letters_disjoint have "d \<notin> set upper_letters" by blast
  moreover have "length upper_letters = length lower_letters"
    by (simp add: upper_letters_def lower_letters_def)
  ultimately have "map_of (zip upper_letters lower_letters) d = None"
    by (metis map_of_eq_None_iff map_fst_zip set_map order_refl)
  then show ?thesis by (simp add: toLowerChar_def)
qed

lemma toLowerChar_idem: "toLowerChar (toLowerChar c) = toLowerChar c"
  using toLowerChar_cases [of c] toLowerChar_lower [of "toLowerChar c"] by auto

lemma toLowerChar_space_fix: "toLowerChar (CHR '' '') = CHR '' ''"
  by (simp add: toLowerChar_def lower_letters_def upper_letters_def)

lemma space_not_lower: "CHR '' '' \<notin> set lower_letters"
  by (simp add: lower_letters_def)

lemma toLowerChar_space: "toLowerChar c = CHR '' '' \<longleftrightarrow> c = CHR '' ''"
  using toLowerChar_cases [of c] toLowerChar_space_fix space_not_lower by metis

lemma toLowerChar_dash: "toLowerChar (CHR ''-'') = CHR ''-''"
  by (simp add: toLowerChar_def lower_letters_def upper_letters_def)

lemma lowercase_dash_joined_idem:
  "lowercase_dash_joined (lowercase_dash_joined c) = lowercase_dash_joined c"
  by (simp add: lowercase_dash_joined_def toLowerChar_idem toLowerChar_space toLowerChar_dash)

lemma string_valued_param_or: "string_valued v \<Longrightarrow> param_or d v = Str (text_or d v)"
  by (auto simp: string_valued_def param_or_def text_or_def falsy_param_def
      split: option.splits param.splits)

lemma text_or_Str: "text_or [] (Some (Str c)) = c"
  by (simp add: text_or_def param_or_def falsy_param_def)

subsection \<open>GET /products: validation\<close>

text \<open>
  For parameters that are absent or strings the middleware is decided by the test on
  sort and direction: it passes the request on, with the rewritten parameters, or it
  fails with status 400 and the invalid-query message.
\<close>

lemma validate_strings:
  assumes "string_valued (q_contains q)" and "string_valued (q_sort q)"
    and "string_valued (q_direction q)"
  shows "validateProductsQuery q =
           (if sort_direction_ok q
            then Inr (Next \<lparr>pq_contains = lowercase_dash_joined (text_or [] (q_contains q)),
                             pq_sort = toLowerCase (text_or ''name'' (q_sort q)),
                             pq_direction = toLowerCase (text_or ''asc'' (q_direction q))\<rparr>)
            else Inr (Fail 400 INVALID_QUERY_ERR))"
proof -
  have "validateProductsQuery q =
      (let contains = formatDashes (text_or [] (q_contains q));
           sortBy = toLowerCase (text_or ''name'' (q_sort q));
           direction = toLowerCase (text_or ''asc'' (q_direction q))
       in if (sortBy \<noteq> ''name'' \<and> sortBy \<noteq> ''price'') \<or>
             (direction \<noteq> ''asc'' \<and> direction \<noteq> ''desc'')
          then Inr (Fail 400 INVALID_QUERY_ERR)
          else Inr (Next \<lparr>pq_contains = contains, pq_sort = sortBy, pq_direction = direction\<rparr>))"
    unfolding validateProductsQuery_def
    by (simp add: string_valued_param_or [OF assms(1)] string_valued_param_or [OF assms(2)]
        string_valued_param_or [OF assms(3)])
  then show ?thesis
    unfolding sort_direction_ok_def Let_def formatDashes_eq
    by (simp only: insert_iff empty_iff) (simp split: if_splits)
qed

lemma strings_rejected:
  assumes "string_valued (q_contains q)" and "string_valued (q_sort q)"
    and "string_valued (q_direction q)" and "\<not> sort_direction_ok q"
  shows "get_products q s = (Responded \<lparr>r_status = 400, r_body = Text INVALID_QUERY_ERR\<rparr>, s)"
  using assms(4) by (simp add: get_products_def validate_strings [OF assms(1-3)] errorHandler_def)

text \<open>
  Claim C5. Every malformed sort or direction value is answered with status 400 and
  the invalid-query message. This holds for values that are strings
  (\<open>validate_strings\<close>, \<open>strings_rejected\<close>), but not for a repeated parameter:
  for \<open>GET /products?sort=name&sort=price\<close> the sort is an array, the call of
  \<open>toLowerCase\<close> on it throws before any status is set, and the answer is status 200
  with the message of the TypeError. The product query is not executed.
\<close>

theorem repeated_sort_answers_200:
  "get_products repeated_sort_query seed_db
     = (Responded \<lparr>r_status = 200,
                     r_body = Text ''req.query.sort.toLowerCase is not a function''\<rparr>,
        seed_db)"
  by (simp add: get_products_def validateProductsQuery_def repeated_sort_query_def
      param_or_def falsy_param_def errorHandler_def)

text \<open>
  Claim C9, amended. For a GET /products request whose parameters are each absent or a
  string, the validation rewrites the contains parameter before the products are
  filtered: a parameter that is not given becomes the empty string, every letter is
  lowercased and every space becomes a dash. Whether the request is accepted does not
  depend on the filter: it is accepted when the sort and direction are, and then the
  handler runs on the rewritten filter. So a request with a mixed-case filter with
  spaces is answered exactly as the request with the lowercase, dash-joined filter is.
\<close>

theorem contains_rewritten:
  assumes "string_valued (q_contains q)" and "string_valued (q_sort q)"
    and "string_valued (q_direction q)"
  shows "validateProductsQuery q =
           (if sort_direction_ok q
            then Inr (Next \<lparr>pq_contains = lowercase_dash_joined (text_or [] (q_contains q)),
                             pq_sort = toLowerCase (text_or ''name'' (q_sort q)),
                             pq_direction = toLowerCase (text_or ''asc'' (q_direction q))\<rparr>)
            else Inr (Fail 400 INVALID_QUERY_ERR)) \<and>
         text_or [] None = [] \<and>
         sort_direction_ok (q\<lparr>q_contains := Some (Str c)\<rparr>) = sort_direction_ok q \<and>
         get_products (q\<lparr>q_contains := Some (Str c)\<rparr>) s
           = get_products (q\<lparr>q_contains := Some (Str (lowercase_dash_joined c))\<rparr>) s \<and>
         (sort_direction_ok q \<longrightarrow>
            get_products (q\<lparr>q_contains := Some (Str c)\<rparr>) s
              = products_handler
                  \<lparr>pq_contains = lowercase_dash_joined c,
                   pq_sort = toLowerCase (text_or ''name'' (q_sort q)),
                   pq_direction = toLowerCase (text_or ''asc'' (q_direction q))\<rparr> s)"
proof -
  have sv: "string_valued (q_contains (q\<lparr>q_contains := Some (Str x)\<rparr>))"
    "string_valued (q_sort (q\<lparr>q_contains := Some (Str x)\<rparr>))"
    "string_valued (q_direction (q\<lparr>q_contains := Some (Str x)\<rparr>))" for x
    using assms(2,3) by (simp_all add: string_valued_def)
  have ok: "sort_direction_ok (q\<lparr>q_contains := Some (Str x)\<rparr>) = sort_direction_ok q" for x
    by (simp add: sort_direction_ok_def)
  have v: "validateProductsQuery (q\<lparr>q_contains := Some (Str x)\<rparr>) =
           (if sort_direction_ok q
            then Inr (Next \<lparr>pq_contains = lowercase_dash_joined x,
                             pq_sort = toLowerCase (text_or ''name'' (q_sort q)),
                             pq_direction = toLowerCase (text_or ''asc'' (q_direction q))\<rparr>)
            else Inr (Fail 400 INVALID_QUERY_ERR))" for x
    using validate_strings [OF sv, of x] by (simp add: ok text_or_Str)
  have same: "validateProductsQuery (q\<lparr>q_contains := Some (Str (lowercase_dash_joined c))\<rparr>)
                = validateProductsQuery (q\<lparr>q_contains := Some (Str c)\<rparr>)"
    by (simp only: v lowercase_dash_joined_idem)
  have t0: "text_or [] None = []"
    by (simp add: text_or_def param_or_def falsy_param_def)
  have eq: "get_products (q\<lparr>q_contains := Some (Str c)\<rparr>) s
           = get_products (q\<lparr>q_contains := Some (Str (lowercase_dash_joined c))\<rparr>) s"
    by (simp only: get_products_def same)
  have run: "sort_direction_ok q \<longrightarrow>
            get_products (q\<lparr>q_contains := Some (Str c)\<rparr>) s
              = products_handler
                  \<lparr>pq_contains = lowercase_dash_joined c,
                   pq_sort = toLowerCase (text_or ''name'' (q_sort q)),
                   pq_direction = toLowerCase (text_or ''asc'' (q_direction q))\<rparr> s"
    by (simp add: get_products_def v)
  from validate_strings [OF assms] t0 ok [of c] eq run show ?thesis by blast
qed

lemma mini_palmiers_rows:
  "filter (\<lambda>r. list_all (sql_like (p_name r)) [''%mini%'', ''%palmiers%'']) seed_products
     = [seed_products ! 3]"
  by (simp add: seed_products_def sql_like_def char_defs)

lemma mini_palmiers_handled:
  "fst (products_handler
          \<lparr>pq_contains = ''mini-palmiers'', pq_sort = ''name'', pq_direction = ''asc''\<rparr> seed_db)
     = Responded \<lparr>r_status = 200, r_body = Json_products [seed_products ! 3]\<rparr>"
proof -
  have "order_rows (Some By_name) (Some Asc) [seed_products ! 3] = [seed_products ! 3]"
    by (simp add: order_rows_def)
  with mini_palmiers_rows show ?thesis
    by (simp add: products_handler_def getDB_def pop_fault_def seed_db_def
        getProductsListFiltered_def db_query_def select_products_like_def)
qed

theorem contains_rewritten_witness:
  "string_valued (q_contains mini_palmiers_query) \<and>
   string_valued (q_sort mini_palmiers_query) \<and>
   string_valued (q_direction mini_palmiers_query) \<and>
   sort_direction_ok mini_palmiers_query \<and>
   validateProductsQuery mini_palmiers_query
     = Inr (Next \<lparr>pq_contains = ''mini-palmiers'', pq_sort = ''name'', pq_direction = ''asc''\<rparr>) \<and>
   fst (get_products mini_palmiers_query seed_db)
     = Responded \<lparr>r_status = 200, r_body = Json_products [seed_products ! 3]\<rparr> \<and>
   get_products mini_palmiers_query seed_db
     = get_products (mini_palmiers_query\<lparr>q_contains := Some (Str ''mini-palmiers'')\<rparr>) seed_db"
proof -
  have sv: "string_valued (q_contains mini_palmiers_query)"
    "string_valued (q_sort mini_palmiers_query)"
    "string_valued (q_direction mini_palmiers_query)"
    by (simp_all add: mini_palmiers_query_def string_valued_def)
  have ok: "sort_direction_ok mini_palmiers_query"
    by (simp add: sort_direction_ok_def mini_palmiers_query_def text_or_def param_or_def
        falsy_param_def char_defs)
  have self: "mini_palmiers_query\<lparr>q_contains := Some (Str ''Mini Palmiers'')\<rparr> = mini_palmiers_query"
    by (simp add: mini_palmiers_query_def)
  have txt_c: "lowercase_dash_joined (text_or [] (q_contains mini_palmiers_query)) = ''mini-palmiers''"
    by (simp add: mini_palmiers_query_def text_or_Str lowercase_dash_joined_def toLowerChar_def
        upper_letters_def lower_letters_def)
  have ldj: "lowercase_dash_joined ''Mini Palmiers'' = ''mini-palmiers''"
    by (simp add: lowercase_dash_joined_def toLowerChar_def upper_letters_def lower_letters_def)
  have srt: "toLowerCase (text_or ''name'' (q_sort mini_palmiers_query)) = ''name''"
    "toLowerCase (text_or ''asc'' (q_direction mini_palmiers_query)) = ''asc''"
    by (simp_all add: mini_palmiers_query_def text_or_def param_or_def falsy_param_def char_defs)
  note inst = contains_rewritten [OF sv, of "''Mini Palmiers''" seed_db,
      unfolded self txt_c ldj srt]
  from inst ok have v: "validateProductsQuery mini_palmiers_query
     = Inr (Next \<lparr>pq_contains = ''mini-palmiers'', pq_sort = ''name'', pq_direction = ''asc''\<rparr>)"
    by simp
  from inst have eq: "get_products mini_palmiers_query seed_db
     = get_products (mini_palmiers_query\<lparr>q_contains := Some (Str ''mini-palmiers'')\<rparr>) seed_db"
    by blast
  from inst ok have "get_products mini_palmiers_query seed_db
     = products_handler
         \<lparr>pq_contains = ''mini-palmiers'', pq_sort = ''name'', pq_direction = ''asc''\<rparr> seed_db"
    by blast
  with mini_palmiers_handled have r: "fst (get_products mini_palmiers_query seed_db)
     = Responded \<lparr>r_status = 200, r_body = Json_products [seed_products ! 3]\<rparr>"
    by (simp only:)
  from sv ok v r eq show ?thesis by blast
qed

text \<open>
  The claim as it was stated is about every request. For
  \<open>GET /products?contains=Mini&contains=Palmiers\<close> the contains parameter is an array:
  \<open>formatDashes\<close> throws on it, nothing is rewritten or filtered, and the answer is
  the message of the TypeError with status 200.
\<close>

theorem repeated_contains_not_rewritten:
  "validateProductsQuery repeated_contains_query = Inl ''name.split is not a function'' \<and>
   get_products repeated_contains_query seed_db
     = (Responded \<lparr>r_status = 200, r_body = Text ''name.split is not a function''\<rparr>, seed_db)"
  by (simp add: get_products_def validateProductsQuery_def repeated_contains_query_def
      param_or_def falsy_param_def errorHandler_def)

subsection \<open>The store\<close>

lemma pop_fault_ok:
  "True \<notin> set (db_faults s) \<Longrightarrow> pop_fault s = (False, s\<lparr>db_faults := tl (db_faults s)\<rparr>)"
  by (cases "db_faults s") (auto simp: pop_fault_def)

lemma pop_fault_tables:
  "db_products (snd (pop_fault s)) = db_products s \<and> db_feedback (snd (pop_fault s)) = db_feedback s"
  by (cases "db_faults s") (auto simp: pop_fault_def)

lemma getDB_tables:
  "db_products (snd (getDB s)) = db_products s \<and> db_feedback (snd (getDB s)) = db_feedback s"
  using pop_fault_tables [of s]
  by (cases "pop_fault s") (auto simp: getDB_def split: bool.splits)

lemma db_end_tables:
  "db_products (db_end c s) = db_products s \<and> db_feedback (db_end c s) = db_feedback s"
  by (simp add: db_end_def)

lemma no_fault_tl: "True \<notin> set xs \<Longrightarrow> True \<notin> set (tl xs)"
  by (cases xs) auto

lemma getDB_healthy:
  "healthy s tbl \<Longrightarrow> \<exists>s1. getDB s = (Inr (db_next s), s1) \<and> healthy s1 tbl"
  by (simp add: getDB_def pop_fault_ok healthy_def no_fault_tl)

lemma db_end_healthy: "healthy s tbl \<Longrightarrow> healthy (db_end c s) tbl"
  by (simp add: db_end_def healthy_def)

lemma select_name_healthy:
  "healthy s tbl \<Longrightarrow>
     \<exists>s1. db_query c (select_name n) s
             = (Inr (map p_name (filter (\<lambda>r. ci_eq (p_name r) n) tbl)), s1) \<and> healthy s1 tbl"
  by (auto simp add: db_query_def pop_fault_ok healthy_def no_fault_tl select_name_def)

lemma select_description_healthy:
  "healthy s tbl \<Longrightarrow>
     \<exists>s1. db_query c (select_description n) s
             = (Inr (map p_description (filter (\<lambda>r. ci_eq (p_name r) n) tbl)), s1) \<and> healthy s1 tbl"
  by (auto simp add: db_query_def pop_fault_ok healthy_def no_fault_tl select_description_def)

subsection \<open>POST /contact-us\<close>

lemma insert_duplicate:
  "list_ex (\<lambda>r. ci_eq (f_email r) email) (db_feedback s) \<Longrightarrow>
     insert_feedback name email message s = (Inl DbError, s)"
  by (simp add: insert_feedback_def)

lemma recordMessage_duplicate:
  assumes "list_ex (\<lambda>r. ci_eq (f_email r) email) (db_feedback s)"
  shows "\<exists>s'. recordMessage db name email message s = (Inl DbError, s') \<and>
              db_feedback s' = db_feedback s"
proof (cases "pop_fault s")
  case (Pair f s1)
  have fb: "db_feedback s1 = db_feedback s"
    using pop_fault_tables [of s] Pair by simp
  show ?thesis
  proof (cases f)
    case True
    with Pair fb show ?thesis by (simp add: recordMessage_def db_query_def)
  next
    case False
    have "insert_feedback name email message (s1\<lparr>db_log := db_log s1 @ [Query db]\<rparr>)
            = (Inl DbError, s1\<lparr>db_log := db_log s1 @ [Query db]\<rparr>)"
      using assms fb by (simp add: insert_duplicate)
    with Pair False fb show ?thesis by (simp add: recordMessage_def db_query_def)
  qed
qed

lemma contact_us_handler_duplicate:
  assumes "list_ex (\<lambda>r. ci_eq (f_email r) (m_email p)) (db_feedback s)"
  shows "fst (contact_us_handler p s) = Responded \<lparr>r_status = 500, r_body = Text SERVER_ERROR\<rparr> \<and>
         db_feedback (snd (contact_us_handler p s)) = db_feedback s"
proof (cases "getDB s")
  case (Pair r s1)
  have fb: "db_feedback s1 = db_feedback s"
    using getDB_tables [of s] Pair by simp
  show ?thesis
  proof (cases r)
    case (Inl e)
    with Pair fb show ?thesis by (simp add: contact_us_handler_def errorHandler_def)
  next
    case (Inr db)
    from assms fb have "list_ex (\<lambda>r. ci_eq (f_email r) (m_email p)) (db_feedback s1)" by simp
    from recordMessage_duplicate [OF this, of db "m_name p" "m_message p"]
    obtain s2 where "recordMessage db (m_name p) (m_email p) (m_message p) s1 = (Inl DbError, s2)"
      and "db_feedback s2 = db_feedback s1" by blast
    with Pair Inr fb show ?thesis
      by (simp add: contact_us_handler_def errorHandler_def db_end_tables)
  qed
qed

text \<open>
  Claim C8. A POST /contact-us request that passes the validation of the form (name,
  email and message are given, and the email contains an at sign) and whose email is
  already in the feedback table: the insert fails, the endpoint answers with status 500
  and the generic server-error message, and the feedback table is unchanged. This
  holds whether or not the store is reachable.
\<close>

theorem duplicate_email_is_server_error:
  assumes "c_name b = Some n" and "n \<noteq> []"
    and "c_email b = Some e" and "includes_str e ''@''"
    and "c_message b = Some m" and "m \<noteq> []"
    and "list_ex (\<lambda>r. ci_eq (f_email r) e) (db_feedback s)"
  shows "fst (insert_feedback n e m s) = Inl DbError \<and>
         fst (post_contact_us b s) = Responded \<lparr>r_status = 500, r_body = Text SERVER_ERROR\<rparr> \<and>
         db_feedback (snd (post_contact_us b s)) = db_feedback s"
proof -
  from assms(4) have "e \<noteq> []" by auto
  with assms have v: "validateForm b = Next \<lparr>m_name = n, m_email = e, m_message = m\<rparr>"
    by (simp add: validateForm_def falsy_def)
  from assms(7) contact_us_handler_duplicate [of "\<lparr>m_name = n, m_email = e, m_message = m\<rparr>" s]
  have "fst (contact_us_handler \<lparr>m_name = n, m_email = e, m_message = m\<rparr> s)
          = Responded \<lparr>r_status = 500, r_body = Text SERVER_ERROR\<rparr> \<and>
        db_feedback (snd (contact_us_handler \<lparr>m_name = n, m_email = e, m_message = m\<rparr> s))
          = db_feedback s" by simp
  with v assms(7) show ?thesis by (simp add: post_contact_us_def insert_duplicate)
qed

theorem duplicate_email_is_server_error_witness:
  "list_ex (\<lambda>r. ci_eq (f_email r) ''Ann@Example.com'') (db_feedback feedback_db) \<and>
   fst (post_contact_us
          \<lparr>c_name = Some ''Ann'', c_email = Some ''Ann@Example.com'', c_message = Some ''Hi again''\<rparr>
          feedback_db)
     = Responded \<lparr>r_status = 500, r_body = Text SERVER_ERROR\<rparr> \<and>
   db_feedback (snd (post_contact_us
          \<lparr>c_name = Some ''Ann'', c_email = Some ''Ann@Example.com'', c_message = Some ''Hi again''\<rparr>
          feedback_db))
     = db_feedback feedback_db"
proof -
  have dup: "list_ex (\<lambda>r. ci_eq (f_email r) ''Ann@Example.com'') (db_feedback feedback_db)"
    by (simp add: feedback_db_def seed_db_def ci_eq_def char_defs)
  have at: "includes_str ''Ann@Example.com'' ''@''" by simp
  from duplicate_email_is_server_error
    [of "\<lparr>c_name = Some ''Ann'', c_email = Some ''Ann@Example.com'', c_message = Some ''Hi again''\<rparr>"
        "''Ann''" "''Ann@Example.com''" "''Hi again''" feedback_db, OF _ _ _ at _ _ dup]
    dup
  show ?thesis by simp
qed

subsection \<open>POST /custom-description\<close>

lemma splice_flavor_box:
  assumes "3 \<le> length ws"
  shows "splice_insert (- 1) bx (splice_insert 2 fl ws)
           = take 2 ws @ fl # drop 2 (butlast ws) @ [bx, last ws]"
proof -
  define ws' where "ws' = take 2 ws @ fl # drop 2 ws"
  have a: "splice_insert 2 fl ws = ws'"
    using assms by (simp add: splice_insert_def Let_def min_def ws'_def)
  have len: "length ws' = Suc (length ws)"
    using assms by (simp add: ws'_def)
  have ne: "drop 2 ws \<noteq> []" using assms by simp
  have bl: "butlast ws' = take 2 ws @ fl # drop 2 (butlast ws)"
    using ne by (simp add: ws'_def butlast_append drop_butlast)
  have la: "last ws' = last ws"
    using ne by (simp add: ws'_def)
  have ws'ne: "ws' \<noteq> []" by (simp add: ws'_def)
  have lb: "length (butlast ws') = length ws" using len by simp
  have dec: "ws' = butlast ws' @ [last ws']" using ws'ne by simp
  have t: "take (length ws) ws' = butlast ws'"
    using len by (simp add: butlast_conv_take)
  have "drop (length (butlast ws')) (butlast ws' @ [last ws']) = [last ws']" by simp
  with dec lb have d: "drop (length ws) ws' = [last ws']" by simp
  have "splice_insert (- 1) bx ws' = take (length ws) ws' @ bx # drop (length ws) ws'"
    using len by (simp add: splice_insert_def Let_def max_def)
  with t d bl la a show ?thesis by simp
qed

text \<open>
  Claim C2. A POST /custom-description request that gives product, flavor and box, for
  a product that exists (after title-casing, ignoring case) and whose stored description
  has at least three words between spaces, on a store that is reachable: the response
  is the text of the words of the description with the flavor inserted as the third
  word (index 2) and the box inserted immediately before the last word, joined by
  single spaces.
\<close>

theorem custom_description_inserts:
  assumes "b_product b = Some pr" and "pr \<noteq> []"
    and "b_flavor b = Some fl" and "fl \<noteq> []"
    and "b_box b = Some bx" and "bx \<noteq> []"
    and "True \<notin> set (db_faults s)"
    and "filter (\<lambda>r. ci_eq (p_name r) (formatTitleCase pr)) (db_products s) = row # others"
    and "3 \<le> length (split (CHR '' '') (p_description row))"
  shows "fst (post_custom_description b s)
           = Responded \<lparr>r_status = 200,
               r_body = Text (join '' ''
                 (take 2 (split (CHR '' '') (p_description row)) @
                  fl # drop 2 (butlast (split (CHR '' '') (p_description row))) @
                  [bx, last (split (CHR '' '') (p_description row))]))\<rparr>"
proof -
  let ?p = "\<lparr>d_product = formatTitleCase pr, d_flavor = fl, d_box = bx\<rparr>"
  let ?tbl = "db_products s"
  have h0: "healthy s ?tbl" using assms(7) by (simp add: healthy_def)
  from getDB_healthy [OF h0] obtain s1
    where g1: "getDB s = (Inr (db_next s), s1)" and h1: "healthy s1 ?tbl" by blast
  from select_name_healthy [OF h1, of "db_next s" "formatTitleCase pr"] obtain s2
    where q1: "db_query (db_next s) (select_name (formatTitleCase pr)) s1
                 = (Inr (map p_name (row # others)), s2)" and h2: "healthy s2 ?tbl"
    using assms(8) by auto
  have h3: "healthy (db_end (db_next s) s2) ?tbl" using h2 by (rule db_end_healthy)
  have v: "validateDescParams b s = (Inr (Next ?p), db_end (db_next s) s2)"
    using assms(1-6) g1 q1
    by (simp add: validateDescParams_def falsy_def Let_def)
  let ?s3 = "db_end (db_next s) s2"
  from getDB_healthy [OF h3] obtain s4
    where g2: "getDB ?s3 = (Inr (db_next ?s3), s4)" and h4: "healthy s4 ?tbl" by blast
  from select_description_healthy [OF h4, of "db_next ?s3" "formatTitleCase pr"] obtain s5
    where q2: "db_query (db_next ?s3) (select_description (formatTitleCase pr)) s4
                 = (Inr (map p_description (row # others)), s5)"
    using assms(8) by auto
  have h: "fst (custom_description_handler ?p ?s3)
         = Responded \<lparr>r_status = 200, r_body = Text (customize (p_description row) fl bx)\<rparr>"
    using g2 q2 by (simp add: custom_description_handler_def getDescription_def)
  have "customize (p_description row) fl bx = join '' ''
                 (take 2 (split (CHR '' '') (p_description row)) @
                  fl # drop 2 (butlast (split (CHR '' '') (p_description row))) @
                  [bx, last (split (CHR '' '') (p_description row))])"
    using splice_flavor_box [OF assms(9)] by (simp add: customize_def Let_def)
  with v h show ?thesis by (simp add: post_custom_description_def)
qed


lemma title_cheesecake: "formatTitleCase ''Cheesecake'' = ''Cheesecake''"
  by (simp add: formatTitleCase_def capitalize_def char_defs)

lemma cheesecake_row:
  "filter (\<lambda>r. ci_eq (p_name r) ''Cheesecake'') (db_products seed_db) = [hd seed_products]"
  by (simp add: seed_db_def seed_products_def ci_eq_def char_defs)

theorem custom_description_inserts_witness:
  "fst (post_custom_description
          \<lparr>b_product = Some ''Cheesecake'', b_flavor = Some ''Caramel'', b_box = Some ''Bow''\<rparr>
          seed_db)
     = Responded \<lparr>r_status = 200,
         r_body = Text (''One homemade Caramel cheesecake, four inches in diameter. Each cheesecake is\<newline>'' @
                        '' packaged in a beautiful handcrafted Bow box.'')\<rparr>"
proof -
  have f: "True \<notin> set (db_faults seed_db)" by (simp add: seed_db_def)
  have r: "filter (\<lambda>r. ci_eq (p_name r) (formatTitleCase ''Cheesecake'')) (db_products seed_db)
             = hd seed_products # []"
    by (simp add: title_cheesecake cheesecake_row)
  have d: "p_description (hd seed_products) =
     ''One homemade cheesecake, four inches in diameter. Each cheesecake is\<newline>'' @
        '' packaged in a beautiful handcrafted box.''"
    by (simp add: seed_products_def)
  have l: "3 \<le> length (split (CHR '' '') (p_description (hd seed_products)))"
    by (simp add: d)
  from custom_description_inserts
    [of "\<lparr>b_product = Some ''Cheesecake'', b_flavor = Some ''Caramel'', b_box = Some ''Bow''\<rparr>"
        "''Cheesecake''" "''Caramel''" "''Bow''" seed_db "hd seed_products" "[]", OF _ _ _ _ _ _ f r l]
  show ?thesis by (simp add: d)
qed

subsection \<open>Connections\<close>

text \<open>
  The three request handlers close the connection they open on every path, and so
  does GET /products as a whole.
\<close>

lemma pop_fault_open: "db_open (snd (pop_fault s)) = db_open s \<and> db_next (snd (pop_fault s)) = db_next s"
  by (cases "db_faults s") (auto simp: pop_fault_def)

lemma getDB_open:
  "getDB s = (Inr c, s1) \<Longrightarrow> c = db_next s \<and> db_open s1 = db_open s @ [c]"
  using pop_fault_open [of s]
  by (cases "pop_fault s") (auto simp: getDB_def split: bool.splits)

lemma getDB_fail_open:
  "getDB s = (Inl e, s1) \<Longrightarrow> db_open s1 = db_open s"
  using pop_fault_open [of s]
  by (cases "pop_fault s") (auto simp: getDB_def split: bool.splits)

lemma select_products_like_open:
  "select_products_like ps k d s = (r, s1) \<Longrightarrow> db_open s1 = db_open s"
  by (auto simp: select_products_like_def split: if_splits)

lemma db_query_open:
  assumes "\<And>s0 r0 s2. statement s0 = (r0, s2) \<Longrightarrow> db_open s2 = db_open s0"
    and "db_query c statement s = (r, s1)"
  shows "db_open s1 = db_open s"
proof (cases "pop_fault s")
  case (Pair f s0)
  with pop_fault_open [of s] have o: "db_open s0 = db_open s" by simp
  show ?thesis
  proof (cases f)
    case True
    with Pair assms(2) o show ?thesis by (auto simp: db_query_def)
  next
    case False
    with Pair assms(2) have "statement (s0\<lparr>db_log := db_log s0 @ [Query c]\<rparr>) = (r, s1)"
      by (simp add: db_query_def)
    from assms(1) [OF this] o show ?thesis by simp
  qed
qed

lemma db_end_closes:
  "c \<notin> set xs \<Longrightarrow> db_open s = xs @ [c] \<Longrightarrow> db_open (db_end c s) = xs"
  by (simp add: db_end_def)

lemma products_handler_closes:
  assumes "db_next s \<notin> set (db_open s)"
  shows "db_open (snd (products_handler p s)) = db_open s"
proof (cases "getDB s")
  case (Pair r s1)
  show ?thesis
  proof (cases r)
    case (Inl e)
    with Pair getDB_fail_open [of s e s1] show ?thesis by (simp add: products_handler_def)
  next
    case (Inr c)
    with Pair getDB_open [of s c s1] have c: "c = db_next s" and o: "db_open s1 = db_open s @ [c]"
      by auto
    obtain r2 s2 where q: "getProductsListFiltered c (pq_contains p) (pq_sort p) (pq_direction p) s1 = (r2, s2)"
      by (cases "getProductsListFiltered c (pq_contains p) (pq_sort p) (pq_direction p) s1")
    then have "db_open s2 = db_open s1"
      unfolding getProductsListFiltered_def Let_def
      by (rule db_query_open [rotated]) (rule select_products_like_open)
    with o have "db_open s2 = db_open s @ [c]" by simp
    with assms c have "db_open (db_end c s2) = db_open s" by (simp add: db_end_closes)
    with Pair Inr q show ?thesis by (cases r2) (simp_all add: products_handler_def)
  qed
qed

lemma select_description_open:
  "select_description n s = (r, s1) \<Longrightarrow> db_open s1 = db_open s"
  by (auto simp: select_description_def)

lemma insert_feedback_open:
  "insert_feedback n e m s = (r, s1) \<Longrightarrow> db_open s1 = db_open s"
  by (auto simp: insert_feedback_def split: if_splits)

lemma custom_description_handler_closes:
  assumes "db_next s \<notin> set (db_open s)"
  shows "db_open (snd (custom_description_handler p s)) = db_open s"
proof (cases "getDB s")
  case (Pair r s1)
  show ?thesis
  proof (cases r)
    case (Inl e)
    with Pair getDB_fail_open [of s e s1] show ?thesis
      by (simp add: custom_description_handler_def)
  next
    case (Inr c)
    with Pair getDB_open [of s c s1] have c: "c = db_next s" and o: "db_open s1 = db_open s @ [c]"
      by auto
    obtain r2 s2 where q: "db_query c (select_description (d_product p)) s1 = (r2, s2)"
      by (cases "db_query c (select_description (d_product p)) s1")
    then have "db_open s2 = db_open s1"
      by (rule db_query_open [rotated]) (rule select_description_open)
    with o have "db_open s2 = db_open s @ [c]" by simp
    with assms c have "db_open (db_end c s2) = db_open s" by (simp add: db_end_closes)
    with Pair Inr q show ?thesis
      by (cases r2) (simp_all add: custom_description_handler_def getDescription_def)
  qed
qed

lemma contact_us_handler_closes:
  assumes "db_next s \<notin> set (db_open s)"
  shows "db_open (snd (contact_us_handler p s)) = db_open s"
proof (cases "getDB s")
  case (Pair r s1)
  show ?thesis
  proof (cases r)
    case (Inl e)
    with Pair getDB_fail_open [of s e s1] show ?thesis
      by (simp add: contact_us_handler_def)
  next
    case (Inr c)
    with Pair getDB_open [of s c s1] have c: "c = db_next s" and o: "db_open s1 = db_open s @ [c]"
      by auto
    obtain r2 s2 where q: "db_query c (insert_feedback (m_name p) (m_email p) (m_message p)) s1 = (r2, s2)"
      by (cases "db_query c (insert_feedback (m_name p) (m_email p) (m_message p)) s1")
    then have "db_open s2 = db_open s1"
      by (rule db_query_open [rotated]) (rule insert_feedback_open)
    with o have "db_open s2 = db_open s @ [c]" by simp
    with assms c have "db_open (db_end c s2) = db_open s" by (simp add: db_end_closes)
    with Pair Inr q show ?thesis
      by (cases r2) (simp_all add: contact_us_handler_def recordMessage_def)
  qed
qed

lemma get_products_closes:
  "db_next s \<notin> set (db_open s) \<Longrightarrow> db_open (snd (get_products q s)) = db_open s"
  by (auto simp: get_products_def products_handler_closes split: sum.splits middleware.splits)

text \<open>
  Claim C7. Every request that opens a connection closes it on every path. The
  handlers do (the lemmas above), but the validation middleware of POST
  /custom-description does not: when its query throws, the function is left with the
  connection open. Here the request is for Cheesecake, Caramel and Bow on the catalog
  of \<open>setup.sql\<close>, the connection is opened and the query of the middleware fails:
  the exception is not caught, and connection 0 stays open.
\<close>

theorem validateDescParams_leaks_connection:
  "post_custom_description
     \<lparr>b_product = Some ''Cheesecake'', b_flavor = Some ''Caramel'', b_box = Some ''Bow''\<rparr>
     (seed_db\<lparr>db_faults := [False, True]\<rparr>)
   = (Uncaught DbError,
      seed_db\<lparr>db_faults := [], db_next := 1, db_open := [0], db_log := [Connect 0]\<rparr>)"
  by (simp add: post_custom_description_def validateDescParams_def falsy_def getDB_def
      pop_fault_def db_query_def seed_db_def)

subsection \<open>GET /products: the filter\<close>

lemma like_percent: "like_match ''%'' s"
  by (induction s) auto

lemma like_prefix:
  "wildcard_free w \<Longrightarrow> like_match (w @ ''%'') s \<longleftrightarrow> prefix w s"
proof (induction w arbitrary: s)
  case Nil
  then show ?case by (simp add: like_percent)
next
  case (Cons p ps)
  then have ps: "wildcard_free ps" and p: "p \<noteq> CHR ''%''" "p \<noteq> CHR ''_''" "p \<noteq> CHR 0x5C"
    by (auto simp: wildcard_free_def)
  show ?case
  proof (cases s)
    case Nil
    with p show ?thesis by simp
  next
    case (Cons c cs)
    with p Cons.IH [OF ps, of cs] show ?thesis by auto
  qed
qed

lemma like_includes:
  "wildcard_free w \<Longrightarrow> like_match (''%'' @ w @ ''%'') s \<longleftrightarrow> includes_str s w"
proof (induction s)
  case Nil
  with like_prefix [of w "[]"] show ?case by simp
next
  case (Cons c cs)
  with like_prefix [of w "c # cs"] show ?case by simp
qed

lemma toLowerChar_special:
  "toLowerChar c = CHR ''%'' \<longleftrightarrow> c = CHR ''%''"
  "toLowerChar c = CHR ''_'' \<longleftrightarrow> c = CHR ''_''"
  "toLowerChar c = CHR 0x5C \<longleftrightarrow> c = CHR 0x5C"
proof -
  have a: "CHR ''%'' \<notin> set lower_letters" "CHR ''_'' \<notin> set lower_letters"
    "CHR 0x5C \<notin> set lower_letters"
    by (simp_all add: lower_letters_def)
  have b: "toLowerChar (CHR ''%'') = CHR ''%''" "toLowerChar (CHR ''_'') = CHR ''_''"
    "toLowerChar (CHR 0x5C) = CHR 0x5C"
    by (simp_all add: toLowerChar_def lower_letters_def upper_letters_def)
  show "toLowerChar c = CHR ''%'' \<longleftrightarrow> c = CHR ''%''"
    using toLowerChar_cases [of c] a b by metis
  show "toLowerChar c = CHR ''_'' \<longleftrightarrow> c = CHR ''_''"
    using toLowerChar_cases [of c] a b by metis
  show "toLowerChar c = CHR 0x5C \<longleftrightarrow> c = CHR 0x5C"
    using toLowerChar_cases [of c] a b by metis
qed

lemma wildcard_free_lower:
  assumes "wildcard_free w"
  shows "wildcard_free (toLowerCase w)"
proof -
  have keep: "x \<notin> toLowerChar ` set w" if "x \<notin> set w" and "\<And>c. toLowerChar c = x \<longleftrightarrow> c = x" for x
  proof
    assume "x \<in> toLowerChar ` set w"
    then obtain c where c: "c \<in> set w" and "x = toLowerChar c" by (rule imageE)
    then have "toLowerChar c = x" by simp
    with that(2) have "c = x" by simp
    with c that(1) show False by simp
  qed
  from assms show ?thesis
    unfolding wildcard_free_def toLowerCase_def set_map
    by (simp add: keep toLowerChar_special)
qed

lemma sql_like_includes:
  assumes "wildcard_free w"
  shows "sql_like x (''%'' @ w @ ''%'') \<longleftrightarrow> includes_str (toLowerCase x) (toLowerCase w)"
proof -
  have "toLowerCase (''%'' @ w @ ''%'') = ''%'' @ toLowerCase w @ ''%''"
    by (simp add: toLowerCase_def toLowerChar_def upper_letters_def lower_letters_def)
  with like_includes [OF wildcard_free_lower [OF assms], of "toLowerCase x"]
  show ?thesis by (simp add: sql_like_def)
qed

lemma wrapped_words:
  "ws \<noteq> [] \<Longrightarrow> map f (butlast ws) @ [f (last ws)] = map f ws"
  by (induction ws) auto

lemma like_filter_substring:
  assumes "list_all wildcard_free (split (CHR ''-'') contains)"
  shows "filter (\<lambda>r. list_all (sql_like (p_name r))
                      (map (\<lambda>w. ''%'' @ w @ ''%'') (split (CHR ''-'') contains))) tbl
       = filter (\<lambda>r. list_all (\<lambda>w. includes_str (toLowerCase (p_name r)) (toLowerCase w))
                      (split (CHR ''-'') contains)) tbl"
proof -
  have "list_all (sql_like x) (map (\<lambda>w. ''%'' @ w @ ''%'') ws)
          = list_all (\<lambda>w. includes_str (toLowerCase x) (toLowerCase w)) ws"
    if "list_all wildcard_free ws" for x ws
    using that by (induction ws) (simp_all add: sql_like_includes del: append.simps)
  with assms show ?thesis by simp
qed

lemma includes_empty: "includes_str s []"
  by (cases s) auto

lemma empty_filter_matches_all:
  "filter (\<lambda>r. list_all (sql_like (p_name r))
                      (map (\<lambda>w. ''%'' @ w @ ''%'') (split (CHR ''-'') []))) tbl = tbl"
  using like_filter_substring [of "[]" tbl]
  by (simp add: wildcard_free_def toLowerCase_def includes_empty del: append.simps)

lemma order_rows_set: "set (order_rows key dir rows) = set rows"
  by (cases key; cases dir) (auto simp: order_rows_def Let_def split: sort_key.splits)

text \<open>
  For a filter whose words have no wildcard, on a reachable store and with a validated
  sort, the products returned are exactly those whose name contains every word,
  ignoring case.
\<close>

lemma filtered_by_words:
  assumes "healthy s tbl"
    and "list_all wildcard_free (split (CHR ''-'') contains)"
    and "sortBy = ''name'' \<or> sortBy = ''price''"
  shows "\<exists>rows s1. getProductsListFiltered db contains sortBy direction s = (Inr rows, s1) \<and>
           set rows = {r \<in> set tbl.
             list_all (\<lambda>w. includes_str (toLowerCase (p_name r)) (toLowerCase w))
               (split (CHR ''-'') contains)}"
proof -
  let ?ws = "split (CHR ''-'') contains"
  let ?s1 = "s\<lparr>db_faults := tl (db_faults s), db_log := db_log s @ [Query db]\<rparr>"
  have w: "map (\<lambda>w. ''%'' @ w @ ''%'') (butlast ?ws) @ [''%'' @ last ?ws @ ''%'']
             = map (\<lambda>w. ''%'' @ w @ ''%'') ?ws"
    using split_not_Nil [of "CHR ''-''" contains] by (rule wrapped_words)
  have p: "pop_fault s = (False, s\<lparr>db_faults := tl (db_faults s)\<rparr>)"
    using assms(1) by (simp add: healthy_def pop_fault_ok)
  have t: "db_products ?s1 = tbl" using assms(1) by (simp add: healthy_def)
  obtain key where key: "(if sortBy = ''name'' then Some By_name
                 else if sortBy = ''price'' then Some By_price else None) = Some key"
    using assms(3) by auto
  have "getProductsListFiltered db contains sortBy direction s
          = select_products_like (map (\<lambda>w. ''%'' @ w @ ''%'') ?ws) (Some key)
              (if direction = ''asc'' then Some Asc
               else if direction = ''desc'' then Some Desc else None) ?s1"
    unfolding getProductsListFiltered_def Let_def w key
    by (simp add: db_query_def p)
  then show ?thesis
    using like_filter_substring [OF assms(2), of tbl] t
    by (simp add: select_products_like_def order_rows_set)
qed

lemma wild_validate:
  "validateProductsQuery wildcard_query
     = Inr (Next \<lparr>pq_contains = ''c_ke'', pq_sort = ''name'', pq_direction = ''asc''\<rparr>)"
  by (simp add: wildcard_query_def validateProductsQuery_def param_or_def falsy_param_def
      formatDashes_def char_defs)

lemma wild_filter:
  "filter (\<lambda>r. list_all (sql_like (p_name r)) [''%c_ke%'']) seed_products
     = [seed_products ! 0, seed_products ! 8, seed_products ! 12, seed_products ! 13]"
  by (simp add: seed_products_def sql_like_def char_defs)

lemma wild_names:
  "map p_name [seed_products ! 0, seed_products ! 8, seed_products ! 12, seed_products ! 13]
     = [''Cheesecake'', ''Cake Pops'', ''Cupcakes'', ''Cake'']"
  by (simp add: seed_products_def)

text \<open>
  Claim C1. The products returned are those whose name contains every dash-separated
  word of the filter, ignoring case, and the empty filter returns every product. This
  holds for words without \<open>%\<close>, \<open>_\<close> and backslash (\<open>filtered_by_words\<close>) and
  for the empty filter (\<open>empty_filter_matches_all\<close>), but the words are passed to
  \<open>LIKE\<close> as they are: for the filter \<open>c_ke\<close> on the catalog of \<open>setup.sql\<close>
  the response lists Cake, Cake Pops, Cheesecake and Cupcakes, and none of these names
  contains \<open>c_ke\<close>.
\<close>

theorem like_wildcard_without_substring:
  "fst (get_products wildcard_query seed_db)
     = Responded \<lparr>r_status = 200, r_body = Json_products
         [seed_products ! 13, seed_products ! 8, seed_products ! 0, seed_products ! 12]\<rparr> \<and>
   map p_name [seed_products ! 13, seed_products ! 8, seed_products ! 0, seed_products ! 12]
     = [''Cake'', ''Cake Pops'', ''Cheesecake'', ''Cupcakes''] \<and>
   \<not> includes_str ''cake'' ''c_ke'' \<and> \<not> includes_str ''cake pops'' ''c_ke'' \<and>
   \<not> includes_str ''cheesecake'' ''c_ke'' \<and> \<not> includes_str ''cupcakes'' ''c_ke''"
proof -
  have "fst (get_products wildcard_query seed_db)
     = Responded \<lparr>r_status = 200, r_body = Json_products
         (order_rows (Some By_name) (Some Asc)
            [seed_products ! 0, seed_products ! 8, seed_products ! 12, seed_products ! 13])\<rparr>"
    using wild_filter
    by (simp add: get_products_def wild_validate products_handler_def getDB_def pop_fault_def
        seed_db_def getProductsListFiltered_def db_query_def select_products_like_def)
  moreover have "order_rows (Some By_name) (Some Asc)
            [seed_products ! 0, seed_products ! 8, seed_products ! 12, seed_products ! 13]
      = [seed_products ! 13, seed_products ! 8, seed_products ! 0, seed_products ! 12]"
    by (simp add: order_rows_def seed_products_def char_defs)
  moreover have "map p_name [seed_products ! 13, seed_products ! 8, seed_products ! 0, seed_products ! 12]
     = [''Cake'', ''Cake Pops'', ''Cheesecake'', ''Cupcakes'']"
    by (simp add: seed_products_def)
  ultimately show ?thesis by simp
qed


subsection \<open>Cart: Add\<close>

lemma splice_remove_decomp:
  "i < length xs \<Longrightarrow> xs = take i xs @ xs ! i # drop (Suc i) xs"
  by (rule id_take_nth_drop)

lemma find_skip: "\<forall>x\<in>set xs. \<not> P x \<Longrightarrow> find P (xs @ ys) = find P ys"
  by (induction xs) auto

lemma filter_splice_remove:
  assumes "i < length cart" and "li_name (cart ! i) = name"
  shows "filter (\<lambda>x. li_name x \<noteq> name) (splice_remove i cart)
           = filter (\<lambda>x. li_name x \<noteq> name) cart"
proof -
  have "filter (\<lambda>x. li_name x \<noteq> name) cart
          = filter (\<lambda>x. li_name x \<noteq> name) (take i cart @ cart ! i # drop (Suc i) cart)"
    using splice_remove_decomp [OF assms(1)] by simp
  with assms(2) show ?thesis by (simp add: splice_remove_def)
qed

lemma updateCart_loop_others:
  "filter (\<lambda>x. li_name x \<noteq> name) (fst (updateCart_loop name i cart item))
     = filter (\<lambda>x. li_name x \<noteq> name) cart"
proof (induction name i cart item rule: updateCart_loop.induct)
  case (1 name i cart item)
  show ?case
  proof (cases "i < length cart")
    case False
    then show ?thesis by (simp add: updateCart_loop.simps [of name i cart item])
  next
    case True
    show ?thesis
    proof (cases "li_name (cart ! i) = name")
      case same: True
      from "1.IH"(1) [OF True same] filter_splice_remove [OF True same]
      show ?thesis using True same by (simp add: updateCart_loop.simps [of name i cart item])
    next
      case other: False
      from "1.IH"(2) [OF True other]
      show ?thesis using True other by (simp add: updateCart_loop.simps [of name i cart item])
    qed
  qed
qed

lemma updateCart_loop_found:
  "snd (updateCart_loop name i cart item) = Some it \<Longrightarrow> item = Some it \<or> li_name it = name"
proof (induction name i cart item rule: updateCart_loop.induct)
  case (1 name i cart item)
  show ?case
  proof (cases "i < length cart")
    case False
    with "1.prems" show ?thesis by (simp add: updateCart_loop.simps [of name i cart item])
  next
    case True
    show ?thesis
    proof (cases "li_name (cart ! i) = name")
      case same: True
      with True "1.prems"
      have "snd (updateCart_loop name (Suc i) (splice_remove i cart) (Some (cart ! i))) = Some it"
        by (simp add: updateCart_loop.simps [of name i cart item])
      from "1.IH"(1) [OF True same this] same show ?thesis by auto
    next
      case other: False
      with True "1.prems"
      have "snd (updateCart_loop name (Suc i) cart item) = Some it"
        by (simp add: updateCart_loop.simps [of name i cart item])
      from "1.IH"(2) [OF True other this] show ?thesis .
    qed
  qed
qed

lemma updateCart_loop_distinct:
  assumes "distinct (map li_name cart)" and "name \<notin> li_name ` set (take i cart)"
  shows "updateCart_loop name i cart item
           = (filter (\<lambda>x. li_name x \<noteq> name) cart,
              case find (\<lambda>x. li_name x = name) cart of None \<Rightarrow> item | Some x \<Rightarrow> Some x)"
  using assms
proof (induction name i cart item rule: updateCart_loop.induct)
  case (1 name i cart item)
  show ?case
  proof (cases "i < length cart")
    case False
    with "1.prems"(2) have no: "name \<notin> li_name ` set cart" by simp
    then have "filter (\<lambda>x. li_name x \<noteq> name) cart = cart"
      by (auto simp: filter_id_conv)
    moreover from no have "find (\<lambda>x. li_name x = name) cart = None"
      by (auto simp: find_None_iff)
    ultimately show ?thesis using False
      by (simp add: updateCart_loop.simps [of name i cart item])
  next
    case True
    note dec = splice_remove_decomp [OF True]
    show ?thesis
    proof (cases "li_name (cart ! i) = name")
      case same: True
      let ?cart' = "splice_remove i cart"
      have d: "distinct (map li_name (take i cart @ cart ! i # drop (Suc i) cart))"
        using "1.prems"(1) dec by simp
      then have d': "distinct (map li_name ?cart')"
        by (simp add: splice_remove_def)
      from d same have nodrop: "name \<notin> li_name ` set (drop (Suc i) cart)" by auto
      with "1.prems"(2) have no': "name \<notin> li_name ` set ?cart'"
        by (auto simp: splice_remove_def)
      have "set (take (Suc i) ?cart') \<subseteq> set ?cart'" by (rule set_take_subset)
      with no' have no'': "name \<notin> li_name ` set (take (Suc i) ?cart')" by blast
      from no' have f': "find (\<lambda>x. li_name x = name) ?cart' = None"
        by (auto simp: find_None_iff)
      have "find (\<lambda>x. li_name x = name) (take i cart @ cart ! i # drop (Suc i) cart) = Some (cart ! i)"
      proof -
        from "1.prems"(2) have "\<forall>x\<in>set (take i cart). \<not> li_name x = name" by blast
        then show ?thesis using same by (simp add: find_skip)
      qed
      with dec have f: "find (\<lambda>x. li_name x = name) cart = Some (cart ! i)" by simp
      from "1.IH"(1) [OF True same d' no''] f' f filter_splice_remove [OF True same]
      show ?thesis using True same
        by (simp add: updateCart_loop.simps [of name i cart item])
    next
      case other: False
      from "1.prems"(2) other True have "name \<notin> li_name ` set (take (Suc i) cart)"
        by (auto simp: take_Suc_conv_app_nth)
      from "1.IH"(2) [OF True other "1.prems"(1) this]
      show ?thesis using True other
        by (simp add: updateCart_loop.simps [of name i cart item])
    qed
  qed
qed

lemma updateCart_distinct:
  assumes "distinct (map li_name cart)"
  shows "updateCart v cart = filter (\<lambda>x. li_name x \<noteq> iv_name v) cart @ [merged v cart]"
  using updateCart_loop_distinct [OF assms, of "iv_name v" 0 None]
  by (simp add: updateCart_def merged_def selected_def Let_def split: option.splits)

lemma merged_name: "li_name (merged v cart) = iv_name v"
  by (auto simp: merged_def Let_def find_Some_iff split: option.splits)

lemma updateCart_last:
  "updateCart v cart \<noteq> [] \<and> li_name (last (updateCart v cart)) = iv_name v"
proof (cases "updateCart_loop (iv_name v) 0 cart None")
  case (Pair cart1 found)
  show ?thesis
  proof (cases found)
    case None
    with Pair show ?thesis by (simp add: updateCart_def Let_def)
  next
    case (Some it)
    with Pair updateCart_loop_found [of "iv_name v" 0 cart None it]
    have "li_name it = iv_name v" by simp
    with Pair Some show ?thesis by (simp add: updateCart_def Let_def)
  qed
qed

lemma updateCart_others:
  "filter (\<lambda>x. li_name x \<noteq> iv_name v) (updateCart v cart)
     = filter (\<lambda>x. li_name x \<noteq> iv_name v) cart"
proof (cases "updateCart_loop (iv_name v) 0 cart None")
  case (Pair cart1 found)
  with updateCart_loop_others [of "iv_name v" 0 cart None]
  have c1: "filter (\<lambda>x. li_name x \<noteq> iv_name v) cart1 = filter (\<lambda>x. li_name x \<noteq> iv_name v) cart"
    by simp
  have "updateCart v cart = butlast (updateCart v cart) @ [last (updateCart v cart)]"
    using updateCart_last [of v cart] by simp
  moreover have "butlast (updateCart v cart) = cart1"
    using Pair by (simp add: updateCart_def Let_def)
  ultimately have "updateCart v cart = cart1 @ [last (updateCart v cart)]" by simp
  then have "filter (\<lambda>x. li_name x \<noteq> iv_name v) (updateCart v cart)
        = filter (\<lambda>x. li_name x \<noteq> iv_name v) (cart1 @ [last (updateCart v cart)])" by simp
  with c1 updateCart_last [of v cart] show ?thesis by simp
qed

lemma addCart_accepted:
  "\<not> qty_rejected (iv_qty v) \<Longrightarrow> addCart v st = Some (updateCart v (cart_of st))"
  by (simp add: addCart_def cart_of_def)

text \<open>
  Claim C10. An Add whose quantity is accepted stores the cart that \<open>updateCart\<close>
  gives for the stored cart (the empty cart when storage holds none). In the stored
  cart after the Add, the product just added is the last line item, and the other line
  items are as they were, in the same order. When the stored cart had at most one line
  item for each name (which Add maintains), the line item of the name is taken from
  its position and appended at the end with the new units merged in.
\<close>

theorem add_moves_item_to_end:
  assumes "\<not> qty_rejected (iv_qty v)"
  shows "addCart v st = Some (updateCart v (cart_of st)) \<and>
         cart_of (addCart v st) \<noteq> [] \<and>
         li_name (last (cart_of (addCart v st))) = iv_name v \<and>
         filter (\<lambda>x. li_name x \<noteq> iv_name v) (cart_of (addCart v st))
           = filter (\<lambda>x. li_name x \<noteq> iv_name v) (cart_of st) \<and>
         (distinct (map li_name (cart_of st)) \<longrightarrow>
            cart_of (addCart v st)
              = filter (\<lambda>x. li_name x \<noteq> iv_name v) (cart_of st) @ [merged v (cart_of st)])"
proof -
  have stored: "cart_of (addCart v st) = updateCart v (cart_of st)"
    using addCart_accepted [OF assms, of st] by (simp add: cart_of_def)
  from addCart_accepted [OF assms, of st] updateCart_last [of v "cart_of st"]
    updateCart_others [of v "cart_of st"] updateCart_distinct [of "cart_of st" v]
  show ?thesis unfolding stored by blast
qed

theorem add_moves_item_to_end_witness:
  "\<not> qty_rejected (iv_qty cake_chocolate) \<and>
   distinct (map li_name (cart_of (Some cake_and_brownies))) \<and>
   addCart cake_chocolate (Some cake_and_brownies)
     = Some [\<lparr>li_name = ''Brownies'', li_price = 2,
               li_customizations = [\<lparr>cz_flavor = ''Caramel'', cz_box = ''Flower''\<rparr>]\<rparr>,
              \<lparr>li_name = ''Cake'', li_price = 10,
               li_customizations = [\<lparr>cz_flavor = ''Chocolate'', cz_box = ''Plain''\<rparr>,
                                    \<lparr>cz_flavor = ''Red Velvet'', cz_box = ''Bow''\<rparr>,
                                    \<lparr>cz_flavor = ''Chocolate'', cz_box = ''Plain''\<rparr>]\<rparr>]"
proof -
  have acc: "\<not> qty_rejected (iv_qty cake_chocolate)"
    by (simp add: cake_chocolate_def qty_rejected_def qty_min_def qty_max_def)
  have c: "cart_of (Some cake_and_brownies) = cake_and_brownies"
    by (simp add: cart_of_def)
  have d: "distinct (map li_name (cart_of (Some cake_and_brownies)))"
    unfolding c by (simp add: cake_and_brownies_def)
  have m: "filter (\<lambda>x. li_name x \<noteq> iv_name cake_chocolate) cake_and_brownies @
          [merged cake_chocolate cake_and_brownies]
     = [\<lparr>li_name = ''Brownies'', li_price = 2,
         li_customizations = [\<lparr>cz_flavor = ''Caramel'', cz_box = ''Flower''\<rparr>]\<rparr>,
        \<lparr>li_name = ''Cake'', li_price = 10,
         li_customizations = [\<lparr>cz_flavor = ''Chocolate'', cz_box = ''Plain''\<rparr>,
                              \<lparr>cz_flavor = ''Red Velvet'', cz_box = ''Bow''\<rparr>,
                              \<lparr>cz_flavor = ''Chocolate'', cz_box = ''Plain''\<rparr>]\<rparr>]"
    by (simp add: cake_and_brownies_def cake_chocolate_def merged_def selected_def rounds_def
        formatTitleCase_def capitalize_def char_defs)
  note inst = add_moves_item_to_end [OF acc, of "Some cake_and_brownies"]
  from inst d have "cart_of (addCart cake_chocolate (Some cake_and_brownies))
      = filter (\<lambda>x. li_name x \<noteq> iv_name cake_chocolate) (cart_of (Some cake_and_brownies)) @
          [merged cake_chocolate (cart_of (Some cake_and_brownies))]"
    by blast
  with m have stored: "cart_of (addCart cake_chocolate (Some cake_and_brownies))
     = [\<lparr>li_name = ''Brownies'', li_price = 2,
         li_customizations = [\<lparr>cz_flavor = ''Caramel'', cz_box = ''Flower''\<rparr>]\<rparr>,
        \<lparr>li_name = ''Cake'', li_price = 10,
         li_customizations = [\<lparr>cz_flavor = ''Chocolate'', cz_box = ''Plain''\<rparr>,
                              \<lparr>cz_flavor = ''Red Velvet'', cz_box = ''Bow''\<rparr>,
                              \<lparr>cz_flavor = ''Chocolate'', cz_box = ''Plain''\<rparr>]\<rparr>]"
    by (simp only: c)
  from inst have "addCart cake_chocolate (Some cake_and_brownies)
      = Some (updateCart cake_chocolate (cart_of (Some cake_and_brownies)))" by blast
  then have "addCart cake_chocolate (Some cake_and_brownies)
      = Some (cart_of (addCart cake_chocolate (Some cake_and_brownies)))"
    by (simp add: cart_of_def)
  with stored acc d show ?thesis by simp
qed

lemma total_added_snoc:
  "total_added name (views @ [v])
     = total_added name views +
       (if \<not> qty_rejected (iv_qty v) \<and> iv_name v = name then the (iv_qty v) else 0)"
  by (simp add: total_added_def)

lemma total_added_absent:
  assumes "name \<notin> iv_name ` {v \<in> set views. \<not> qty_rejected (iv_qty v)}"
  shows "total_added name views = 0"
proof -
  from assms have "\<forall>v\<in>set views. \<not> (\<not> qty_rejected (iv_qty v) \<and> iv_name v = name)" by blast
  then have "filter (\<lambda>v. \<not> qty_rejected (iv_qty v) \<and> iv_name v = name) views = []"
    by (simp add: filter_empty_conv)
  then show ?thesis by (simp add: total_added_def)
qed

lemma accepted_rounds:
  "\<not> qty_rejected qty \<Longrightarrow> int (rounds qty) = the qty"
  by (auto simp: qty_rejected_def rounds_def qty_min_def split: option.splits)

lemma merged_length:
  assumes "cart_inv cart views" and "\<not> qty_rejected (iv_qty v)"
  shows "int (length (li_customizations (merged v cart)))
           = total_added (iv_name v) views + the (iv_qty v)"
proof (cases "find (\<lambda>x. li_name x = iv_name v) cart")
  case None
  then have "iv_name v \<notin> li_name ` set cart" by (auto simp: find_None_iff)
  with assms(1) have "total_added (iv_name v) views = 0"
    by (simp add: cart_inv_def total_added_absent)
  with None accepted_rounds [OF assms(2)] show ?thesis
    by (simp add: merged_def Let_def)
next
  case (Some it)
  then have "it \<in> set cart" and "li_name it = iv_name v"
    by (auto simp: find_Some_iff)
  with assms(1) have "int (length (li_customizations it)) = total_added (iv_name v) views"
    by (auto simp: cart_inv_def)
  with Some accepted_rounds [OF assms(2)] show ?thesis
    by (simp add: merged_def Let_def)
qed

lemma cart_inv_step:
  assumes "cart_inv (cart_of st) views"
  shows "cart_inv (cart_of (addCart v st)) (views @ [v])"
proof (cases "qty_rejected (iv_qty v)")
  case True
  with assms show ?thesis
    by (auto simp: addCart_def cart_inv_def total_added_snoc)
next
  case False
  let ?c = "cart_of st" and ?n = "iv_name v"
  let ?rest = "filter (\<lambda>x. li_name x \<noteq> ?n) ?c"
  from assms have d: "distinct (map li_name ?c)" by (simp add: cart_inv_def)
  have c': "cart_of (addCart v st) = ?rest @ [merged v ?c]"
    using False updateCart_distinct [OF d, of v]
    by (simp add: addCart_def cart_of_def)
  have d': "distinct (map li_name (?rest @ [merged v ?c]))"
    using d by (auto simp: merged_name distinct_map_filter)
  have l': "\<forall>it \<in> set (?rest @ [merged v ?c]).
              int (length (li_customizations it)) = total_added (li_name it) (views @ [v])"
  proof
    fix it assume "it \<in> set (?rest @ [merged v ?c])"
    then consider "it \<in> set ?c" "li_name it \<noteq> ?n" | "it = merged v ?c" by auto
    then show "int (length (li_customizations it)) = total_added (li_name it) (views @ [v])"
    proof cases
      case 1
      with assms show ?thesis by (auto simp: cart_inv_def total_added_snoc)
    next
      case 2
      with merged_length [OF assms False] False show ?thesis
        by (simp add: total_added_snoc merged_name)
    qed
  qed
  have n': "li_name ` set (?rest @ [merged v ?c])
              = iv_name ` {u \<in> set (views @ [v]). \<not> qty_rejected (iv_qty u)}"
  proof -
    have "li_name ` set (?rest @ [merged v ?c]) = insert ?n (li_name ` set ?c)"
      by (auto simp: merged_name)
    moreover have "iv_name ` {u \<in> set (views @ [v]). \<not> qty_rejected (iv_qty u)}
        = insert ?n (iv_name ` {u \<in> set views. \<not> qty_rejected (iv_qty u)})"
      using False by auto
    ultimately show ?thesis using assms by (simp add: cart_inv_def)
  qed
  from d' l' n' c' show ?thesis by (simp add: cart_inv_def)
qed

lemma cart_inv_add_all:
  "cart_of st = [] \<Longrightarrow> cart_inv (cart_of (add_all views st)) views"
proof (induction views rule: rev_induct)
  case Nil
  then show ?case by (simp add: add_all_def cart_inv_def)
next
  case (snoc v views)
  from cart_inv_step [OF snoc.IH [OF snoc.prems], of v] show ?case by (simp add: add_all_def)
qed

text \<open>
  Claim C3. After every sequence of Add operations on storage that holds no cart or an
  empty cart at first, the stored cart has at most one line item for each product name,
  the number of customizations of each line item is the total quantity added for its
  name (by the operations whose quantity was accepted, that is, between 1 and 10), and
  the names in the cart are those of the accepted operations. In particular, two Add
  operations for the same name with quantity 1 and different customizations give one
  line item with two customizations.
\<close>

theorem one_line_item_per_name:
  assumes "cart_of st = []"
  shows "distinct (map li_name (cart_of (add_all views st))) \<and>
         (\<forall>it \<in> set (cart_of (add_all views st)).
            int (length (li_customizations it)) = total_added (li_name it) views) \<and>
         li_name ` set (cart_of (add_all views st))
           = iv_name ` {v \<in> set views. \<not> qty_rejected (iv_qty v)}"
  using cart_inv_add_all [OF assms, of views] by (simp add: cart_inv_def)

theorem one_line_item_per_name_witness:
  "cart_of None = [] \<and>
   cart_of (add_all [cake_chocolate, cake_red_velvet] None)
     = [\<lparr>li_name = ''Cake'', li_price = 10,
         li_customizations = [\<lparr>cz_flavor = ''Chocolate'', cz_box = ''Plain''\<rparr>,
                              \<lparr>cz_flavor = ''Red Velvet'', cz_box = ''Bow''\<rparr>]\<rparr>] \<and>
   total_added ''Cake'' [cake_chocolate, cake_red_velvet] = 2 \<and>
   distinct (map li_name (cart_of (add_all [cake_chocolate, cake_red_velvet] None)))"
proof -
  have "cart_of (add_all [cake_chocolate, cake_red_velvet] None)
     = [\<lparr>li_name = ''Cake'', li_price = 10,
         li_customizations = [\<lparr>cz_flavor = ''Chocolate'', cz_box = ''Plain''\<rparr>,
                              \<lparr>cz_flavor = ''Red Velvet'', cz_box = ''Bow''\<rparr>]\<rparr>]"
    by (simp add: add_all_def addCart_def cart_of_def qty_rejected_def qty_min_def qty_max_def
        cake_chocolate_def cake_red_velvet_def updateCart_def updateCart_loop.simps
        splice_remove_def rounds_def formatTitleCase_def capitalize_def char_defs)
  moreover have "total_added ''Cake'' [cake_chocolate, cake_red_velvet] = 2"
    by (simp add: total_added_def cake_chocolate_def cake_red_velvet_def qty_rejected_def
        qty_min_def qty_max_def)
  moreover have "cart_of None = []" by (simp add: cart_of_def)
  ultimately show ?thesis
    using one_line_item_per_name [of None "[cake_chocolate, cake_red_velvet]"] by simp
qed


subsection \<open>Cart: Render and Remove\<close>

lemma createItem_loop:
  "foldl (\<lambda>(customs, count, total) newItem.
            (customs @ [''Flavor: '' @ cz_flavor newItem @ [CHR 0x0A] @
                        ''Box Decoration: '' @ cz_box newItem],
             count + 1, total + price))
         (customs0, count0, total0) items
     = (customs0 @ map custom_text items, count0 + int (length items),
        total0 + price * int (length items))"
proof (induction items arbitrary: customs0 count0 total0)
  case Nil
  show ?case by simp
next
  case (Cons c cs)
  show ?case
    by (simp add: Cons.IH custom_text_def algebra_simps del: append.simps)
qed

lemma createItem_rendered:
  "createItem item pg
     = (rendered item,
        pg\<lparr>cp_count := cp_count pg + int (length (li_customizations item)),
           cp_total := cp_total pg + li_price item * int (length (li_customizations item))\<rparr>)"
  unfolding createItem_def Let_def createItem_loop
  by (simp add: rendered_def)

lemma initializeCart_loop:
  "cp_items (foldl (\<lambda>pg1 item. case createItem item pg1 of
                               (node, pg2) \<Rightarrow> pg2\<lparr>cp_items := cp_items pg2 @ [node]\<rparr>) pg cart)
     = cp_items pg @ map rendered cart \<and>
   cp_storage (foldl (\<lambda>pg1 item. case createItem item pg1 of
                               (node, pg2) \<Rightarrow> pg2\<lparr>cp_items := cp_items pg2 @ [node]\<rparr>) pg cart)
     = cp_storage pg"
  by (induction cart arbitrary: pg) (simp_all add: createItem_rendered)

lemma initializeCart_items:
  "cp_storage pg = Some cart \<Longrightarrow>
     cp_items (initializeCart pg) = cp_items pg @ map rendered cart \<and>
     cp_storage (initializeCart pg) = Some cart"
  by (simp add: initializeCart_def initializeCart_loop)

lemma digit_char_digit: "d < 10 \<Longrightarrow> digit_char d \<in> set ''0123456789''"
  unfolding digit_char_def by (rule nth_mem) simp

lemma show_nat_digits: "set (show_nat n) \<subseteq> set ''0123456789''"
proof (induction n rule: show_nat.induct)
  case (1 n)
  show ?case
  proof (cases "n < 10")
    case True
    with digit_char_digit [of n] show ?thesis
      by (simp add: show_nat.simps [of n])
  next
    case False
    have "n mod 10 < 10" by simp
    from digit_char_digit [OF this] "1.IH" [OF False] False show ?thesis
      by (simp add: show_nat.simps [of n])
  qed
qed

lemma show_nat_no_space: "CHR '' '' \<notin> set (show_nat n)"
  using show_nat_digits [of n] by auto

lemma index_of_skip:
  "a \<notin> set d \<Longrightarrow> index_of (a # p) (d @ s) = map_option (\<lambda>k. length d + k) (index_of (a # p) s)"
proof (induction d)
  case Nil
  show ?case by (simp add: option.map_ident)
next
  case (Cons c d)
  then have "c \<noteq> a" and "a \<notin> set d" by auto
  with Cons.IH show ?case by (simp add: option.map_comp comp_def)
qed

lemma prefix_of_long:
  assumes "prefix p (a @ b)" and "length p \<le> length a"
  shows "prefix p a"
  using assms by (auto simp: prefix_append)

lemma index_of_at_end:
  assumes "p \<noteq> []"
  shows "\<not> includes_str (xs @ butlast p) p \<Longrightarrow> index_of p (xs @ p @ ys) = Some (length xs)"
proof (induction xs)
  case Nil
  from assms obtain c s where "p @ ys = c # s" by (cases p) auto
  moreover have "prefix p (p @ ys)" by simp
  ultimately show ?case by simp
next
  case (Cons c xs)
  from Cons.prems have np: "\<not> prefix p (c # xs @ butlast p)"
    and ni: "\<not> includes_str (xs @ butlast p) p"
    by (auto split: if_splits)
  have "\<not> prefix p (c # xs @ p @ ys)"
  proof
    assume "prefix p (c # xs @ p @ ys)"
    moreover have "c # xs @ p @ ys = (c # xs @ butlast p) @ (last p # ys)"
      using assms by simp
    ultimately have "prefix p ((c # xs @ butlast p) @ (last p # ys))" by simp
    moreover have "length p \<le> length (c # xs @ butlast p)" using assms by simp
    ultimately have "prefix p (c # xs @ butlast p)" by (rule prefix_of_long)
    with np show False by simp
  qed
  with Cons.IH [OF ni] show ?case by simp
qed

lemma slice_middle:
  "slice (d @ sep # name @ rest) (int (length d) + 1) (int (length d + 1 + length name)) = name"
proof -
  have "nat (int (length d) + 1) = Suc (length d)" by simp
  then show ?thesis by (simp add: slice_def Let_def)
qed

lemma parse_name_rendered:
  assumes "\<not> includes_str ('' '' @ li_name item @ '' -'') '' - ''"
  shows "parse_name (textContent (rendered item)) = li_name item"
proof -
  let ?d = "show_nat (length (li_customizations item))"
  let ?rest = "''$'' @ toFixed2 (n_span (rendered item)) @ ''X'' @ concat (n_customs (rendered item))"
  have tc: "textContent (rendered item) = ?d @ '' '' @ li_name item @ '' - '' @ ?rest"
    by (simp add: textContent_def rendered_def)
  have nsp: "CHR '' '' \<notin> set ?d" by (rule show_nat_no_space)
  have "index_of '' '' (?d @ '' '' @ li_name item @ '' - '' @ ?rest)
          = map_option (\<lambda>k. length ?d + k) (index_of '' '' ('' '' @ li_name item @ '' - '' @ ?rest))"
    using nsp by (rule index_of_skip)
  then have sp: "index_of '' '' (textContent (rendered item)) = Some (length ?d)"
    unfolding tc by simp
  have e: "index_of '' - '' (('' '' @ li_name item) @ '' - '' @ ?rest) = Some (length ('' '' @ li_name item))"
    using assms by (intro index_of_at_end) simp_all
  have "index_of '' - '' (?d @ ('' '' @ li_name item) @ '' - '' @ ?rest)
          = map_option (\<lambda>k. length ?d + k) (index_of '' - '' (('' '' @ li_name item) @ '' - '' @ ?rest))"
    using nsp by (rule index_of_skip)
  with e have "index_of '' - '' (?d @ ('' '' @ li_name item) @ '' - '' @ ?rest)
               = Some (length ?d + length ('' '' @ li_name item))"
    by simp
  then have da: "index_of '' - '' (textContent (rendered item)) = Some (length ?d + 1 + length (li_name item))"
    unfolding tc by simp
  have "slice (?d @ CHR '' '' # li_name item @ ('' - '' @ ?rest)) (int (length ?d) + 1)
          (int (length ?d + 1 + length (li_name item))) = li_name item"
    by (rule slice_middle)
  then have sl: "slice (textContent (rendered item)) (int (length ?d) + 1)
          (int (length ?d + 1 + length (li_name item))) = li_name item"
    unfolding tc by simp
  have "parse_name (textContent (rendered item))
          = slice (textContent (rendered item)) (int (length ?d) + 1)
              (int (length ?d + 1 + length (li_name item)))"
    unfolding parse_name_def indexOf_def sp da by simp
  with sl show ?thesis by simp
qed

lemma removeItem_loop_updateCart_loop:
  "removeItem_loop name i cart = fst (updateCart_loop name i cart item)"
proof (induction name i cart item rule: updateCart_loop.induct)
  case (1 name i cart item)
  show ?case
  proof (cases "i < length cart")
    case False
    then show ?thesis
      by (simp add: updateCart_loop.simps [of name i cart item] removeItem_loop.simps [of name i cart])
  next
    case True
    show ?thesis
    proof (cases "li_name (cart ! i) = name")
      case same: True
      from "1.IH"(1) [OF True same] True same show ?thesis
        by (simp add: updateCart_loop.simps [of name i cart item] removeItem_loop.simps [of name i cart])
    next
      case other: False
      from "1.IH"(2) [OF True other] True other show ?thesis
        by (simp add: updateCart_loop.simps [of name i cart item] removeItem_loop.simps [of name i cart])
    qed
  qed
qed

lemma filter_distinct_remove:
  assumes "distinct (map f xs)" and "k < length xs"
  shows "filter (\<lambda>x. f x \<noteq> f (xs ! k)) xs = splice_remove k xs"
proof -
  have dec: "xs = take k xs @ xs ! k # drop (Suc k) xs"
    using assms(2) by (rule id_take_nth_drop)
  then have "distinct (map f (take k xs @ xs ! k # drop (Suc k) xs))"
    using assms(1) by simp
  then have "f (xs ! k) \<notin> f ` set (take k xs)" and "f (xs ! k) \<notin> f ` set (drop (Suc k) xs)"
    by auto
  then have a: "\<forall>x\<in>set (take k xs). f x \<noteq> f (xs ! k)"
    and b: "\<forall>x\<in>set (drop (Suc k) xs). f x \<noteq> f (xs ! k)"
    by (metis imageI)+
  have "filter (\<lambda>x. f x \<noteq> f (xs ! k)) (take k xs @ xs ! k # drop (Suc k) xs)
          = take k xs @ drop (Suc k) xs"
    using a b by (simp add: filter_id_conv)
  with dec show ?thesis by (simp add: splice_remove_def)
qed

lemma removeItem_loop_distinct:
  assumes "distinct (map li_name cart)" and "k < length cart"
  shows "removeItem_loop (li_name (cart ! k)) 0 cart = splice_remove k cart"
  using updateCart_loop_distinct [OF assms(1), of "li_name (cart ! k)" 0 None]
    filter_distinct_remove [OF assms]
  by (simp add: removeItem_loop_updateCart_loop [of _ _ _ None])

lemma map_splice_remove: "map f (splice_remove k xs) = splice_remove k (map f xs)"
  by (simp add: splice_remove_def take_map drop_map)

lemmas render_defs = cart_page_of_def initializeCart_def createItem_def textContent_def
  toFixed2_def show_int_def show_nat.simps digit_char_def

text \<open>
  Claim C4, amended. For a stored cart with at most one line item for each name, shown
  as Render builds it, and a line item whose name is such that \<open>" - "\<close> does not
  occur in \<open>" " + name + " -"\<close> (the name does not contain \<open>" - "\<close>, does not begin
  with \<open>"- "\<close>, does not end with \<open>" -"\<close> and is not \<open>"-"\<close>): Remove reads the name
  back from the rendered text, deletes exactly that line item from the stored cart,
  lowers the count shown by the number of customizations of the item and the total
  shown by the amount the item shows, and takes the rendered item off the page.
\<close>

theorem remove_inverts_render:
  assumes "cp_storage pg = Some cart"
    and "cp_items pg = map rendered cart"
    and "distinct (map li_name cart)"
    and "k < length cart"
    and "\<not> includes_str ('' '' @ li_name (cart ! k) @ '' -'') '' - ''"
  shows "parse_name (textContent (cp_items pg ! k)) = li_name (cart ! k) \<and>
         removeItem k pg =
           pg\<lparr>cp_storage := Some (splice_remove k cart),
              cp_count := cp_count pg - int (length (li_customizations (cart ! k))),
              cp_total := cp_total pg - li_price (cart ! k) * int (length (li_customizations (cart ! k))),
              cp_items := map rendered (splice_remove k cart)\<rparr>"
proof -
  have node: "cp_items pg ! k = rendered (cart ! k)"
    using assms(2,4) by simp
  have name: "parse_name (textContent (cp_items pg ! k)) = li_name (cart ! k)"
    unfolding node using assms(5) by (rule parse_name_rendered)
  have "removeItem k pg =
           pg\<lparr>cp_storage := Some (removeItem_loop (li_name (cart ! k)) 0 cart),
              cp_count := cp_count pg - int (length (n_customs (rendered (cart ! k)))),
              cp_total := cp_total pg - n_span (rendered (cart ! k)),
              cp_items := splice_remove k (map rendered cart)\<rparr>"
    using assms(1,2) name node by (simp add: removeItem_def Let_def)
  with removeItem_loop_distinct [OF assms(3,4)] name show ?thesis
    by (simp add: map_splice_remove rendered_def)
qed

theorem remove_inverts_render_witness:
  "distinct (map li_name cake_and_brownies) \<and>
   \<not> includes_str ('' '' @ li_name (cake_and_brownies ! 0) @ '' -'') '' - '' \<and>
   parse_name (textContent (cp_items (cart_page_of cake_and_brownies) ! 0)) = ''Cake'' \<and>
   cp_count (cart_page_of cake_and_brownies) = 3 \<and>
   cp_total (cart_page_of cake_and_brownies) = 22 \<and>
   removeItem 0 (cart_page_of cake_and_brownies)
     = \<lparr>cp_count = 1, cp_total = 2,
        cp_items = [rendered (cake_and_brownies ! 1)],
        cp_storage = Some [cake_and_brownies ! 1]\<rparr>"
proof -
  let ?pg = "cart_page_of cake_and_brownies"
  have st: "cp_storage ?pg = Some cake_and_brownies"
    using initializeCart_items [of "\<lparr>cp_count = 0, cp_total = 0, cp_items = [],
        cp_storage = Some cake_and_brownies\<rparr>" cake_and_brownies]
    by (simp add: cart_page_of_def)
  have items: "cp_items ?pg = map rendered cake_and_brownies"
    using initializeCart_items [of "\<lparr>cp_count = 0, cp_total = 0, cp_items = [],
        cp_storage = Some cake_and_brownies\<rparr>" cake_and_brownies]
    by (simp add: cart_page_of_def)
  have d: "distinct (map li_name cake_and_brownies)"
    by (simp add: cake_and_brownies_def)
  have k: "0 < length cake_and_brownies"
    by (simp add: cake_and_brownies_def)
  have safe: "\<not> includes_str ('' '' @ li_name (cake_and_brownies ! 0) @ '' -'') '' - ''"
    by (simp add: cake_and_brownies_def)
  have ct: "cp_count ?pg = 3 \<and> cp_total ?pg = 22"
    by (simp add: cart_page_of_def initializeCart_def createItem_rendered cake_and_brownies_def)
  have rest: "splice_remove 0 cake_and_brownies = [cake_and_brownies ! 1]"
    by (simp add: splice_remove_def cake_and_brownies_def)
  have nm: "li_name (cake_and_brownies ! 0) = ''Cake'' \<and>
      li_price (cake_and_brownies ! 0) = 10 \<and>
      length (li_customizations (cake_and_brownies ! 0)) = 2"
    by (simp add: cake_and_brownies_def)
  from remove_inverts_render [OF st items d k safe] ct rest nm items
  have "parse_name (textContent (cp_items ?pg ! 0)) = ''Cake'' \<and>
        removeItem 0 ?pg = ?pg\<lparr>cp_storage := Some [cake_and_brownies ! 1],
              cp_count := 1, cp_total := 2, cp_items := [rendered (cake_and_brownies ! 1)]\<rparr>"
    by simp
  with d safe ct show ?thesis by simp
qed

text \<open>
  The claim as it was stated asks only that the name does not contain \<open>" - "\<close> and
  does not begin with a space. The name \<open>Cake -\<close> meets both, is rendered as
  \<open>1 Cake - - $10.00\<close>, and is read back as \<open>Cake\<close>: the line item stays in
  the stored cart.
\<close>

theorem remove_parses_other_name:
  "\<not> includes_str ''Cake -'' '' - '' \<and> \<not> prefix '' '' ''Cake -'' \<and>
   parse_name (textContent (cp_items (cart_page_of dash_cart) ! 0)) = ''Cake'' \<and>
   cp_storage (removeItem 0 (cart_page_of dash_cart)) = Some dash_cart"
proof -
  have items: "cp_items (cart_page_of dash_cart)
      = [\<lparr>n_text = ''1 Cake - - $'', n_span = 10,
          n_customs = [''Flavor: Chocolate'' @ [CHR 0x0A] @ ''Box Decoration: Plain'']\<rparr>]"
    by (simp add: render_defs dash_cart_def)
  have st: "cp_storage (cart_page_of dash_cart) = Some dash_cart"
    by (simp add: render_defs dash_cart_def)
  have name: "parse_name (textContent (cp_items (cart_page_of dash_cart) ! 0)) = ''Cake''"
    unfolding items
    by (simp add: textContent_def toFixed2_def show_int_def show_nat.simps digit_char_def
        parse_name_def indexOf_def slice_def)
  have "removeItem_loop ''Cake'' 0 dash_cart = dash_cart"
    by (simp add: removeItem_loop.simps dash_cart_def)
  with name st have "cp_storage (removeItem 0 (cart_page_of dash_cart)) = Some dash_cart"
    by (simp add: removeItem_def Let_def)
  with name show ?thesis by simp
qed


subsection \<open>The featured section\<close>

lemma featured_loop_stops:
  "\<not> served w name \<Longrightarrow>
     \<exists>err. featured_loop w (name # names) pg
             = (Inl err, pg\<lparr>hp_requests := hp_requests pg @ [product_url name]\<rparr>)"
  by (auto simp: served_def checkStatus_def Let_def split: option.splits)

lemma featured_loop_goes_on:
  "served w name \<Longrightarrow>
     featured_loop w (name # names) pg
       = featured_loop w names
           (pg\<lparr>hp_requests := hp_requests pg @ [product_url name],
               hp_featured := hp_featured pg @ [card_of w name]\<rparr>)"
  by (auto simp: served_def card_of_def checkStatus_def Let_def split: option.splits)

lemma featured_loop_result:
  "hp_featured (snd (featured_loop w names pg))
     = hp_featured pg @ map (card_of w) (takeWhile (served w) names) \<and>
   hp_requests (snd (featured_loop w names pg))
     = hp_requests pg @ map product_url (take (Suc (length (takeWhile (served w) names))) names) \<and>
   hp_results (snd (featured_loop w names pg)) = hp_results pg \<and>
   ((\<exists>u. fst (featured_loop w names pg) = Inr u) \<longleftrightarrow> takeWhile (served w) names = names)"
proof (induction names arbitrary: pg)
  case Nil
  show ?case by simp
next
  case (Cons name names)
  show ?case
  proof (cases "served w name")
    case True
    from Cons [of "pg\<lparr>hp_requests := hp_requests pg @ [product_url name],
               hp_featured := hp_featured pg @ [card_of w name]\<rparr>"]
    show ?thesis
      unfolding featured_loop_goes_on [OF True] using True by simp
  next
    case False
    from featured_loop_stops [OF False, of names pg] obtain err where
      "featured_loop w (name # names) pg
             = (Inl err, pg\<lparr>hp_requests := hp_requests pg @ [product_url name]\<rparr>)" by blast
    with False show ?thesis by simp
  qed
qed

lemma featured_names:
  "split (CHR 0x0A) (trim ''Cheesecake\<newline>Mini Palmiers\<newline>'') = [''Cheesecake'', ''Mini Palmiers'']"
  by (simp add: trim_def is_space_def)

lemma urls: "product_url ''Cheesecake'' = ''/products/cheesecake''"
  "product_url ''Mini Palmiers'' = ''/products/mini-palmiers''"
  by (simp_all add: product_url_def BASE_URL_def formatDashes_def char_defs)

text \<open>
  Claim C6, amended. When the list of featured names arrives, the product of each name
  is fetched in the order of the names, each fetch after the card of the name before
  is in place, and the section shows one card for each name in that order. When every
  fetch succeeds, all cards are shown and the message is cleared. When a fetch fails,
  no further product is fetched, the message is the error message, and the cards of
  the names before the failing one stay in the section.
\<close>

theorem featured_cards_until_failure:
  assumes "w (BASE_URL @ ''featured'') = Some r" and "h_ok r"
  shows "hp_featured (initializeFeatured w pg)
           = hp_featured pg @
             map (card_of w) (takeWhile (served w) (split (CHR 0x0A) (trim (h_text r)))) \<and>
         hp_results (initializeFeatured w pg)
           = (if takeWhile (served w) (split (CHR 0x0A) (trim (h_text r)))
                 = split (CHR 0x0A) (trim (h_text r))
              then [] else REQUEST_ERROR) \<and>
         hp_requests (initializeFeatured w pg)
           = hp_requests pg @ (BASE_URL @ ''featured'') #
             map product_url
               (take (Suc (length (takeWhile (served w) (split (CHR 0x0A) (trim (h_text r))))))
                  (split (CHR 0x0A) (trim (h_text r))))"
proof -
  let ?names = "split (CHR 0x0A) (trim (h_text r))"
  let ?pg1 = "pg\<lparr>hp_results := ''Response Loading...'',
                hp_requests := hp_requests pg @ [BASE_URL @ ''featured'']\<rparr>"
  obtain res pg2 where loop: "featured_loop w ?names ?pg1 = (res, pg2)"
    by (cases "featured_loop w ?names ?pg1")
  from featured_loop_result [of w ?names ?pg1] loop
  have f: "hp_featured pg2 = hp_featured pg @ map (card_of w) (takeWhile (served w) ?names)"
    and q: "hp_requests pg2 = hp_requests pg @ (BASE_URL @ ''featured'') #
              map product_url (take (Suc (length (takeWhile (served w) ?names))) ?names)"
    and ok: "(\<exists>u. res = Inr u) \<longleftrightarrow> takeWhile (served w) ?names = ?names"
    by simp_all
  have t: "initializeFeatured_try w (pg\<lparr>hp_results := ''Response Loading...''\<rparr>)
             = (case res of Inl err \<Rightarrow> (Inl err, pg2) | Inr u \<Rightarrow> (Inr (), pg2\<lparr>hp_results := []\<rparr>))"
    using assms loop
    by (simp add: initializeFeatured_try_def checkStatus_def Let_def split: sum.splits)
  show ?thesis
  proof (cases res)
    case (Inl err)
    with ok have "takeWhile (served w) ?names \<noteq> ?names" by auto
    then have "(if takeWhile (served w) ?names = ?names then [] else REQUEST_ERROR) = REQUEST_ERROR"
      by (rule if_not_P)
    with Inl t f q show ?thesis
      by (simp only: initializeFeatured_def handleRequestError_def) simp
  next
    case (Inr u)
    with ok have "takeWhile (served w) ?names = ?names" by auto
    then have "(if takeWhile (served w) ?names = ?names then [] else REQUEST_ERROR) = []"
      by (rule if_P)
    with Inr t f q show ?thesis
      by (simp only: initializeFeatured_def) simp
  qed
qed

theorem featured_cards_until_failure_witness:
  "good_world (BASE_URL @ ''featured'') = Some featured_response \<and> h_ok featured_response \<and>
   hp_featured (initializeFeatured good_world blank_home)
     = [createCard (seed_products ! 0), createCard (seed_products ! 3)] \<and>
   hp_results (initializeFeatured good_world blank_home) = [] \<and>
   hp_requests (initializeFeatured good_world blank_home)
     = [''/featured'', ''/products/cheesecake'', ''/products/mini-palmiers'']"
proof -
  have a: "good_world (BASE_URL @ ''featured'') = Some featured_response"
    by (simp add: good_world_def BASE_URL_def)
  have b: "h_ok featured_response" by (simp add: featured_response_def)
  have s: "served good_world ''Cheesecake''" "served good_world ''Mini Palmiers''"
    by (simp_all add: served_def urls good_world_def product_response_def)
  have c: "card_of good_world ''Cheesecake'' = createCard (seed_products ! 0)"
    "card_of good_world ''Mini Palmiers'' = createCard (seed_products ! 3)"
    by (simp_all add: card_of_def urls good_world_def product_response_def)
  have n: "split (CHR 0x0A) (trim (h_text featured_response)) = [''Cheesecake'', ''Mini Palmiers'']"
    by (simp add: featured_response_def featured_names)
  from featured_cards_until_failure [of good_world featured_response blank_home, OF a b] a b
  show ?thesis
    unfolding n by (simp add: s c urls blank_home_def BASE_URL_def)
qed

text \<open>
  The claim as it was stated says that after a failing fetch no card of that pass remains.
  Here the names are Cheesecake and Mini Palmiers and the fetch of the second is
  answered with status 500: the error message is shown and the card of Cheesecake
  remains.
\<close>

theorem featured_partial_rendering:
  "h_ok (the (failing_world ''/products/mini-palmiers'')) = False \<and>
   hp_results (initializeFeatured failing_world blank_home) = REQUEST_ERROR \<and>
   hp_featured (initializeFeatured failing_world blank_home) = [createCard (seed_products ! 0)]"
proof -
  have "initializeFeatured failing_world blank_home
      = \<lparr>hp_results = REQUEST_ERROR, hp_featured = [createCard (seed_products ! 0)],
         hp_requests = [''/featured'', ''/products/cheesecake'', ''/products/mini-palmiers'']\<rparr>"
    by (simp add: initializeFeatured_def initializeFeatured_try_def BASE_URL_def
        failing_world_def checkStatus_def featured_names urls blank_home_def
        product_response_def error_response_def handleRequestError_def featured_response_def)
  then show ?thesis by (simp add: failing_world_def error_response_def)
qed


end
